theory Spec2Isabelle
  imports Complex_Main
begin

section \<open>Data model\<close>

text \<open>
  The program (\<^verbatim>\<open>src/app.py\<close>) turns the positioned words of PDF pages into a pandas
  DataFrame. A DataFrame is modelled by its column labels and its rows, in index order;
  \<^verbatim>\<open>reset_index(drop=True)\<close> renumbers the rows 0, 1, ... and is the identity on
  this representation. A cell is a string or pandas' missing value (NaN / None).
  Coordinates are Python floats: every float is a rational number, so they are modelled
  as \<open>rat\<close> (NaN and the infinities are not modelled).
\<close>

datatype cell = NaN | Str string

record dataframe =
  df_columns :: "string list"
  df_rows :: "cell list list"

datatype error = IndexError | KeyError | ExternalError

text \<open>\<^verbatim>\<open>df.empty\<close>: true when any axis has length 0.\<close>

definition df_empty :: "dataframe \<Rightarrow> bool" where
  "df_empty df \<longleftrightarrow> df_rows df = [] \<or> df_columns df = []"

text \<open>\<^verbatim>\<open>pd.DataFrame(columns=expected_headers)\<close>\<close>

definition empty_frame :: "string list \<Rightarrow> dataframe" where
  "empty_frame expected_headers = \<lparr>df_columns = expected_headers, df_rows = []\<rparr>"

section \<open>clean_dataframe\<close>

text \<open>
  \<^verbatim>\<open>df.iloc[:, 0] == expected_headers[0]\<close>, for one row. The comparison of a missing
  value with a string is False. A row without cells belongs to a frame without columns,
  which is \<^verbatim>\<open>empty\<close> and never reaches the comparison.
\<close>

fun first_is_header :: "string \<Rightarrow> cell list \<Rightarrow> bool" where
  "first_is_header h [] = False"
| "first_is_header h (c # cs) = (c = Str h)"

text \<open>The row mask of \<^verbatim>\<open>dropna(how='all')\<close>: every value of the row is missing.\<close>

definition all_na :: "cell list \<Rightarrow> bool" where
  "all_na r = list_all (\<lambda>c. c = NaN) r"

definition drop_header_rows :: "string \<Rightarrow> cell list list \<Rightarrow> cell list list" where
  "drop_header_rows h rs = filter (\<lambda>r. \<not> first_is_header h r) rs"

definition dropna_all :: "cell list list \<Rightarrow> cell list list" where
  "dropna_all rs = filter (\<lambda>r. \<not> all_na r) rs"

text \<open>
  \<^verbatim>\<open>
  def clean_dataframe(df, expected_headers):
      if df is None or df.empty:
          return pd.DataFrame(columns=expected_headers)
      df_cleaned = df[~(df.iloc[:, 0] == expected_headers[0])]
      return df_cleaned.dropna(how='all').reset_index(drop=True)
  \<close>
  \<^verbatim>\<open>expected_headers[0]\<close> raises IndexError on an empty header list.
\<close>

definition clean_dataframe :: "dataframe option \<Rightarrow> string list \<Rightarrow> error + dataframe" where
  "clean_dataframe df expected_headers =
     (case df of
        None \<Rightarrow> Inr (empty_frame expected_headers)
      | Some d \<Rightarrow>
          if df_empty d then Inr (empty_frame expected_headers)
          else (case expected_headers of
                  [] \<Rightarrow> Inl IndexError
                | h # _ \<Rightarrow>
                    Inr (d\<lparr>df_rows := dropna_all (drop_header_rows h (df_rows d))\<rparr>)))"

section \<open>Page selection in process_pdf\<close>

text \<open>
  \<^verbatim>\<open>range(a, b)\<close> over Python's unbounded integers: a, a+1, ... while below b.
\<close>

function py_range :: "int \<Rightarrow> int \<Rightarrow> int list" where
  "py_range a b = (if a < b then a # py_range (a + 1) b else [])"
  by pat_completeness auto
termination
  by (relation "measure (\<lambda>(a, b). nat (b - a))") auto

declare py_range.simps [simp del]

text \<open>The \<^verbatim>\<open>pages\<close> argument: the string \<^verbatim>\<open>'all'\<close> or a list of page numbers.\<close>

datatype pages_arg = All | Pages "int list"

text \<open>
  \<^verbatim>\<open>
  if pages == 'all':
      if start_page is not None and end_page is not None:
          pages_to_process = range(max(start_page - 1, 0), min(end_page, total_pages))
      else:
          pages_to_process = range(total_pages)
  else:
      pages_to_process = [p - 1 for p in pages if 0 < p <= total_pages]
  \<close>
\<close>

definition pages_to_process ::
  "pages_arg \<Rightarrow> int option \<Rightarrow> int option \<Rightarrow> nat \<Rightarrow> int list" where
  "pages_to_process pages start_page end_page total_pages =
     (case pages of
        All \<Rightarrow>
          (case start_page of
             Some s \<Rightarrow>
               (case end_page of
                  Some e \<Rightarrow> py_range (max (s - 1) 0) (min e (int total_pages))
                | None \<Rightarrow> py_range 0 (int total_pages))
           | None \<Rightarrow> py_range 0 (int total_pages))
      | Pages ps \<Rightarrow> map (\<lambda>p. p - 1) (filter (\<lambda>p. 0 < p \<and> p \<le> int total_pages) ps))"

section \<open>extract_page_data_with_pdfplumber\<close>

text \<open>
  One entry of \<^verbatim>\<open>page.extract_words()\<close>: the dictionary keys \<^verbatim>\<open>'text'\<close>,
  \<^verbatim>\<open>'x0'\<close> and \<^verbatim>\<open>'top'\<close> that the function reads.
\<close>

record pdf_word =
  word_text :: string
  word_x0 :: rat
  word_top :: rat

text \<open>
  \<^verbatim>\<open>round(y0, -1)\<close>: Python rounds the exact value of the float to the nearest
  multiple of ten, a tie going to the even multiple (\<^verbatim>\<open>round(105.0, -1) == 100.0\<close>,
  \<^verbatim>\<open>round(115.0, -1) == 120.0\<close>).
\<close>

definition round_half_even :: "rat \<Rightarrow> int" where
  "round_half_even q =
     (let f = \<lfloor>q\<rfloor>; d = q - of_int f
      in if d < 1 / 2 then f
         else if 1 / 2 < d then f + 1
         else if even f then f else f + 1)"

definition py_round_tens :: "rat \<Rightarrow> rat" where
  "py_round_tens y0 = of_int (round_half_even (y0 / 10)) * 10"

text \<open>
  The dictionary \<^verbatim>\<open>rows\<close>: row key to a list of cells, each cell the list of the
  texts appended to it. Python keeps the keys in insertion order; an association list
  with unique keys keeps the same order.
\<close>

type_synonym grid = "(rat \<times> string list list) list"

text \<open>
  \<^verbatim>\<open>
  if row_key not in rows:
      rows[row_key] = [[] for _ in range(len(expected_headers))]
  \<close>
\<close>

definition ensure_row :: "nat \<Rightarrow> rat \<Rightarrow> grid \<Rightarrow> grid" where
  "ensure_row n row_key rows =
     (if row_key \<in> set (map fst rows) then rows else rows @ [(row_key, replicate n [])])"

text \<open>
  \<^verbatim>\<open>zip(column_positions, column_positions[1:] + [None])\<close>: each boundary with the
  next one, the last with None.
\<close>

definition column_intervals :: "rat list \<Rightarrow> (rat \<times> rat option) list" where
  "column_intervals column_positions =
     zip column_positions (map Some (tl column_positions) @ [None])"

text \<open>\<^verbatim>\<open>(x0 >= start) and (end is None or x0 < end)\<close>\<close>

fun in_interval :: "rat \<Rightarrow> rat \<times> rat option \<Rightarrow> bool" where
  "in_interval x0 (start, None) = (start \<le> x0)"
| "in_interval x0 (start, Some stop) = (start \<le> x0 \<and> x0 < stop)"

text \<open>
  The \<^verbatim>\<open>for idx, (start, end) in enumerate(...)\<close> loop up to its \<^verbatim>\<open>break\<close>:
  the index of the first interval holding x0, None when the loop runs to its end.
\<close>

fun scan_columns :: "nat \<Rightarrow> (rat \<times> rat option) list \<Rightarrow> rat \<Rightarrow> nat option" where
  "scan_columns idx [] x0 = None"
| "scan_columns idx (iv # ivs) x0 =
     (if in_interval x0 iv then Some idx else scan_columns (Suc idx) ivs x0)"

text \<open>\<^verbatim>\<open>rows[row_key][idx].append(text)\<close>, on the entry of \<open>row_key\<close>.\<close>

fun append_text :: "rat \<Rightarrow> nat \<Rightarrow> string \<Rightarrow> grid \<Rightarrow> grid" where
  "append_text row_key idx t [] = []"
| "append_text row_key idx t ((k, cells) # rows) =
     (if k = row_key then (k, cells[idx := cells ! idx @ [t]]) # rows
      else (k, cells) # append_text row_key idx t rows)"

text \<open>
  The body of \<^verbatim>\<open>for word in words\<close>. \<^verbatim>\<open>rows[row_key][idx]\<close> raises IndexError
  when the row has no cell \<open>idx\<close> (more boundaries than headers).
\<close>

definition place_word :: "nat \<Rightarrow> rat list \<Rightarrow> grid \<Rightarrow> pdf_word \<Rightarrow> error + grid" where
  "place_word n column_positions rows w =
     (let row_key = py_round_tens (word_top w);
          rows1 = ensure_row n row_key rows
      in case scan_columns 0 (column_intervals column_positions) (word_x0 w) of
           None \<Rightarrow> Inr rows1
         | Some idx \<Rightarrow>
             (case map_of rows1 row_key of
                None \<Rightarrow> Inl KeyError
              | Some cells \<Rightarrow>
                  if idx < length cells then Inr (append_text row_key idx (word_text w) rows1)
                  else Inl IndexError))"

fun build_rows :: "nat \<Rightarrow> rat list \<Rightarrow> pdf_word list \<Rightarrow> grid \<Rightarrow> error + grid" where
  "build_rows n column_positions [] rows = Inr rows"
| "build_rows n column_positions (w # ws) rows =
     (case place_word n column_positions rows w of
        Inl e \<Rightarrow> Inl e
      | Inr rows' \<Rightarrow> build_rows n column_positions ws rows')"

text \<open>\<^verbatim>\<open>" ".join(cell)\<close>\<close>

fun join_space :: "string list \<Rightarrow> string" where
  "join_space [] = []"
| "join_space [s] = s"
| "join_space (s # t # ts) = s @ '' '' @ join_space (t # ts)"

text \<open>
  \<^verbatim>\<open>str.strip()\<close> removes leading and trailing whitespace. A \<open>char\<close> stands for a
  code point below 256, where Python's whitespace is 9-13, 28-32, 133 and 160.
\<close>

definition py_isspace :: "char \<Rightarrow> bool" where
  "py_isspace c =
     (let n = (of_char c :: nat)
      in (9 \<le> n \<and> n \<le> 13) \<or> (28 \<le> n \<and> n \<le> 32) \<or> n = 133 \<or> n = 160)"

definition strip :: "string \<Rightarrow> string" where
  "strip s = rev (dropWhile py_isspace (rev (dropWhile py_isspace s)))"

text \<open>
  \<^verbatim>\<open>
  data_rows = [[" ".join(cell).strip() for cell in rows[row_key]]
               for row_key in sorted(rows.keys())]
  \<close>
  Every key of the list comes from \<open>rows\<close>, so the lookup never misses.
\<close>

definition data_rows :: "grid \<Rightarrow> string list list" where
  "data_rows rows =
     map (\<lambda>row_key. map (\<lambda>cell. strip (join_space cell))
                       (case map_of rows row_key of None \<Rightarrow> [] | Some cells \<Rightarrow> cells))
         (sort (map fst rows))"

text \<open>
  What Streamlit is asked to show (\<^verbatim>\<open>st.info\<close>, \<^verbatim>\<open>st.success\<close>,
  \<^verbatim>\<open>st.warning\<close>, \<^verbatim>\<open>st.error\<close>), in the order of the calls. Page numbers are
  the 1-based numbers of the messages.
\<close>

datatype message =
    Info_total_pages nat
  | Info_processing_pages "int list"
  | Info_attempt_pdfplumber int
  | Success_pdfplumber int
  | Info_attempt_camelot int
  | Success_camelot int
  | Error_pdfplumber error
  | Error_page int error
  | Warning_no_data
  | Error_fatal error

text \<open>
  A page is what \<^verbatim>\<open>page.extract_words()\<close> gives: the words, or an exception of the
  PDF library.
\<close>

type_synonym page = "error + pdf_word list"

text \<open>
  \<^verbatim>\<open>pd.DataFrame(data_rows, columns=expected_headers)\<close>; every row of
  \<open>data_rows\<close> has one string per header.
\<close>

definition frame_of_rows :: "string list list \<Rightarrow> string list \<Rightarrow> dataframe" where
  "frame_of_rows drs expected_headers =
     \<lparr>df_columns = expected_headers, df_rows = map (map Str) drs\<rparr>"

text \<open>
  The function returns a DataFrame or None; the second component is what it reports
  through \<^verbatim>\<open>st.error\<close>. Any exception inside the \<^verbatim>\<open>try\<close> is reported and
  turned into None.
\<close>

definition extract_page_data_with_pdfplumber ::
  "page \<Rightarrow> rat list \<Rightarrow> string list \<Rightarrow> dataframe option \<times> message list" where
  "extract_page_data_with_pdfplumber pg column_positions expected_headers =
     (case pg of
        Inl e \<Rightarrow> (None, [Error_pdfplumber e])
      | Inr words \<Rightarrow>
          (case build_rows (length expected_headers) column_positions words [] of
             Inl e \<Rightarrow> (None, [Error_pdfplumber e])
           | Inr rows \<Rightarrow>
               if data_rows rows = [] then (None, [])
               else (case clean_dataframe
                            (Some (frame_of_rows (data_rows rows) expected_headers))
                            expected_headers of
                       Inl e \<Rightarrow> (None, [Error_pdfplumber e])
                     | Inr df \<Rightarrow> (Some df, []))))"

section \<open>process_pdf\<close>

text \<open>
  The outside world of \<^verbatim>\<open>process_pdf\<close>: what \<^verbatim>\<open>pdfplumber.open\<close> gives for the
  path and password (the pages, or an exception such as a wrong password), what
  \<^verbatim>\<open>camelot.read_pdf\<close> gives for a 1-based page number (the DataFrames of the tables
  found, or an exception), and whether \<^verbatim>\<open>to_excel\<close> fails on the final frame.
  Camelot labels the columns of its frames 0, 1, ...; only their number is read.
\<close>

record pdf_env =
  pdfplumber_open :: "error + page list"
  camelot_read_pdf :: "int \<Rightarrow> error + dataframe list"
  to_excel :: "dataframe \<Rightarrow> error option"

definition expected_headers :: "string list" where
  "expected_headers =
     [''Receipt No.'', ''Completion Time'', ''Details'', ''Transaction Status'',
      ''Paid In'', ''Withdrawn'', ''Balance'']"

text \<open>
  The literals \<^verbatim>\<open>[37.5, 85, 194.899, 350, 418.4, 465.2, 521.34]\<close>, each at the exact
  value of its float: 37.5, 85 and 350 are exact, the others are the nearest doubles
  (numerators over \<open>2\<^sup>4\<^sup>3\<close>, \<open>2\<^sup>4\<^sup>3\<close>, \<open>2\<^sup>4\<^sup>4\<close> and \<open>2\<^sup>4\<^sup>3\<close>).
\<close>

definition column_positions :: "rat list" where
  "column_positions =
     [75 / 2, 85, 1714349733935317 / 8796093022208, 350,
      3680285320491827 / 8796093022208, 8183884947862323 / 17592186044416,
      4585755136197919 / 8796093022208]"

text \<open>
  \<^verbatim>\<open>pdf.pages[page_num]\<close>: Python list indexing, a negative index counting from the
  end, IndexError out of range.
\<close>

definition index_page :: "page list \<Rightarrow> int \<Rightarrow> page option" where
  "index_page pgs page_num =
     (let n = int (length pgs); j = (if page_num < 0 then n + page_num else page_num)
      in if 0 \<le> j \<and> j < n then Some (pgs ! nat j) else None)"

text \<open>The accumulator \<^verbatim>\<open>all_data\<close> and the messages shown so far.\<close>

type_synonym run_state = "dataframe list \<times> message list"

text \<open>
  \<^verbatim>\<open>
  for table in tables:
      df_camelot = table.df
      if len(df_camelot.columns) == len(expected_headers):
          df_camelot.columns = expected_headers
          df_camelot = clean_dataframe(df_camelot, expected_headers)
          if df_camelot is not None and not df_camelot.empty:
              all_data.append(df_camelot)
              st.success(...)
  \<close>
  An exception leaves the loop for the page's \<^verbatim>\<open>except\<close>; what was appended stays.
\<close>

fun camelot_tables :: "string list \<Rightarrow> int \<Rightarrow> dataframe list \<Rightarrow> run_state \<Rightarrow> run_state" where
  "camelot_tables hs page_num [] st = st"
| "camelot_tables hs page_num (df_camelot # tables) (all_data, shown) =
     (if length (df_columns df_camelot) = length hs then
        (case clean_dataframe (Some (df_camelot\<lparr>df_columns := hs\<rparr>)) hs of
           Inl e \<Rightarrow> (all_data, shown @ [Error_page (page_num + 1) e])
         | Inr df \<Rightarrow>
             if \<not> df_empty df
             then camelot_tables hs page_num tables
                    (all_data @ [df], shown @ [Success_camelot (page_num + 1)])
             else camelot_tables hs page_num tables (all_data, shown))
      else camelot_tables hs page_num tables (all_data, shown))"

text \<open>The \<^verbatim>\<open>else\<close> branch of the page: the Camelot attempt.\<close>

definition camelot_fallback :: "pdf_env \<Rightarrow> string list \<Rightarrow> int \<Rightarrow> run_state \<Rightarrow> run_state" where
  "camelot_fallback env hs page_num st =
     (case st of (all_data, shown) \<Rightarrow>
        (let shown1 = shown @ [Info_attempt_camelot (page_num + 1)]
         in case camelot_read_pdf env (page_num + 1) of
              Inl e \<Rightarrow> (all_data, shown1 @ [Error_page (page_num + 1) e])
            | Inr tables \<Rightarrow> camelot_tables hs page_num tables (all_data, shown1)))"

text \<open>
  The body of \<^verbatim>\<open>for page_num in pages_to_process\<close>, with its \<^verbatim>\<open>try\<close>: an
  exception is reported for the page and the loop goes on.
\<close>

definition process_page ::
  "pdf_env \<Rightarrow> page list \<Rightarrow> rat list \<Rightarrow> string list \<Rightarrow> int \<Rightarrow> run_state \<Rightarrow> run_state" where
  "process_page env pgs cps hs page_num st =
     (case st of (all_data, shown) \<Rightarrow>
        (case index_page pgs page_num of
           None \<Rightarrow> (all_data, shown @ [Error_page (page_num + 1) IndexError])
         | Some pg \<Rightarrow>
             (case extract_page_data_with_pdfplumber pg cps hs of
                (df_pdfplumber, errs) \<Rightarrow>
                  (let shown1 = shown @ [Info_attempt_pdfplumber (page_num + 1)] @ errs
                   in case df_pdfplumber of
                        None \<Rightarrow> camelot_fallback env hs page_num (all_data, shown1)
                      | Some df \<Rightarrow>
                          if \<not> df_empty df
                          then (all_data @ [df], shown1 @ [Success_pdfplumber (page_num + 1)])
                          else camelot_fallback env hs page_num (all_data, shown1)))))"

fun page_loop ::
  "pdf_env \<Rightarrow> page list \<Rightarrow> rat list \<Rightarrow> string list \<Rightarrow> int list \<Rightarrow> run_state \<Rightarrow> run_state" where
  "page_loop env pgs cps hs [] st = st"
| "page_loop env pgs cps hs (page_num # rest) st =
     page_loop env pgs cps hs rest (process_page env pgs cps hs page_num st)"

text \<open>
  \<^verbatim>\<open>pd.concat(all_data, ignore_index=True)\<close> for frames with the same column labels,
  which every accumulated frame has (the expected headers): the labels of the first, the
  rows of all in order.
\<close>

definition pd_concat :: "dataframe list \<Rightarrow> dataframe" where
  "pd_concat dfs =
     \<lparr>df_columns = (case dfs of [] \<Rightarrow> [] | d # _ \<Rightarrow> df_columns d),
      df_rows = concat (map df_rows dfs)\<rparr>"

text \<open>
  \<^verbatim>\<open>process_pdf\<close> returns a DataFrame or None and shows messages. An exception that
  reaches the outer \<^verbatim>\<open>except\<close> is reported and turned into None.
\<close>

definition process_pdf ::
  "pdf_env \<Rightarrow> pages_arg \<Rightarrow> int option \<Rightarrow> int option \<Rightarrow> dataframe option \<times> message list" where
  "process_pdf env pages start_page end_page =
     (case pdfplumber_open env of
        Inl e \<Rightarrow> (None, [Error_fatal e])
      | Inr pgs \<Rightarrow>
          (let total_pages = length pgs;
               to_process = pages_to_process pages start_page end_page total_pages;
               shown0 = [Info_total_pages total_pages,
                       Info_processing_pages (map (\<lambda>p. p + 1) to_process)]
           in case page_loop env pgs column_positions expected_headers to_process ([], shown0) of
                (all_data, shown) \<Rightarrow>
                  if all_data \<noteq> [] then
                    (case clean_dataframe (Some (pd_concat all_data)) expected_headers of
                       Inl e \<Rightarrow> (None, shown @ [Error_fatal e])
                     | Inr final_df \<Rightarrow>
                         (case to_excel env final_df of
                            Some e \<Rightarrow> (None, shown @ [Error_fatal e])
                          | None \<Rightarrow> (Some final_df, shown)))
                  else (None, shown @ [Warning_no_data])))"

text \<open>The page numbers of the pdfplumber and of the Camelot attempts among the messages.\<close>

fun pdfplumber_attempts :: "message list \<Rightarrow> int list" where
  "pdfplumber_attempts [] = []"
| "pdfplumber_attempts (Info_attempt_pdfplumber n # ms) = n # pdfplumber_attempts ms"
| "pdfplumber_attempts (m # ms) = pdfplumber_attempts ms"

fun camelot_attempts :: "message list \<Rightarrow> int list" where
  "camelot_attempts [] = []"
| "camelot_attempts (Info_attempt_camelot n # ms) = n # camelot_attempts ms"
| "camelot_attempts (m # ms) = camelot_attempts ms"

section \<open>Notions used in the statements\<close>

text \<open>
  The column of a token as the specification words it: the index \<open>i\<close> of the boundary
  interval \<open>[boundaries[i], boundaries[i+1])\<close> that holds \<open>x0\<close>, the interval of the
  last boundary having no upper end.
\<close>

definition in_column :: "rat list \<Rightarrow> nat \<Rightarrow> rat \<Rightarrow> bool" where
  "in_column boundaries i x0 \<longleftrightarrow>
     i < length boundaries \<and> boundaries ! i \<le> x0 \<and>
     (Suc i = length boundaries \<or> x0 < boundaries ! Suc i)"

text \<open>The texts in the bucket of a row key and a column; empty where there is no bucket.\<close>

definition cell_at :: "grid \<Rightarrow> rat \<Rightarrow> nat \<Rightarrow> string list" where
  "cell_at rows row_key i =
     (case map_of rows row_key of
        None \<Rightarrow> []
      | Some cells \<Rightarrow> if i < length cells then cells ! i else [])"

text \<open>The shape of \<^verbatim>\<open>rows\<close> during the loop: unique keys, one cell per header.\<close>

definition grid_ok :: "nat \<Rightarrow> grid \<Rightarrow> bool" where
  "grid_ok n rows \<longleftrightarrow>
     distinct (map fst rows) \<and> list_all (\<lambda>(k, cells). length cells = n) rows"

text \<open>
  A document of \<open>n\<close> pages without words, in which Camelot finds no table and the
  spreadsheet can be written.
\<close>

definition blank_env :: "nat \<Rightarrow> pdf_env" where
  "blank_env n =
     \<lparr>pdfplumber_open = Inr (replicate n (Inr [])),
      camelot_read_pdf = (\<lambda>page_number. Inr []),
      to_excel = (\<lambda>df. None)\<rparr>"

text \<open>A document that cannot be opened (for example a wrong password).\<close>

definition locked_env :: pdf_env where
  "locked_env =
     \<lparr>pdfplumber_open = Inl ExternalError,
      camelot_read_pdf = (\<lambda>page_number. Inr []),
      to_excel = (\<lambda>df. None)\<rparr>"

text \<open>
  A document of one page with the given words, in which Camelot finds no table;
  \<open>write_result\<close> is what writing the spreadsheet gives.
\<close>

definition one_page_env :: "pdf_word list \<Rightarrow> error option \<Rightarrow> pdf_env" where
  "one_page_env ws write_result =
     \<lparr>pdfplumber_open = Inr [Inr ws],
      camelot_read_pdf = (\<lambda>page_number. Inr []),
      to_excel = (\<lambda>df. write_result)\<rparr>"

text \<open>
  What the Camelot candidates of a page contribute, as the specification words it: a
  candidate is accepted when it has as many columns as there are headers; it gets the
  header names, is cleaned, and is included when a row remains.
\<close>

definition fallback_tables :: "string list \<Rightarrow> dataframe list \<Rightarrow> dataframe list" where
  "fallback_tables hs candidates =
     map (\<lambda>t. \<lparr>df_columns = hs,
               df_rows = dropna_all (drop_header_rows (hd hs) (df_rows t))\<rparr>)
       (filter (\<lambda>t. hs \<noteq> [] \<and> length (df_columns t) = length hs
                    \<and> dropna_all (drop_header_rows (hd hs) (df_rows t)) \<noteq> [])
          candidates)"

text \<open>
  The tables of one page: the frame of the word grid when there is one and it is not
  empty, otherwise what the Camelot candidates for that page number contribute (nothing
  when Camelot raises).
\<close>

definition page_tables ::
  "pdf_env \<Rightarrow> rat list \<Rightarrow> string list \<Rightarrow> page \<Rightarrow> int \<Rightarrow> dataframe list" where
  "page_tables env cps hs pg page_number =
     (let fallback =
            (case camelot_read_pdf env page_number of
               Inl e \<Rightarrow> []
             | Inr candidates \<Rightarrow> fallback_tables hs candidates)
      in case fst (extract_page_data_with_pdfplumber pg cps hs) of
           None \<Rightarrow> fallback
         | Some df \<Rightarrow> if df_empty df then fallback else [df])"

text \<open>
  A document with the given words on its pages, in which Camelot finds no table and
  the spreadsheet can be written.
\<close>

definition words_env :: "pdf_word list list \<Rightarrow> pdf_env" where
  "words_env pages_words =
     \<lparr>pdfplumber_open = Inr (map Inr pages_words),
      camelot_read_pdf = (\<lambda>page_number. Inr []),
      to_excel = (\<lambda>df. None)\<rparr>"

text \<open>
  A document of one page without words, for which Camelot returns the given candidates.
\<close>

definition camelot_env :: "dataframe list \<Rightarrow> pdf_env" where
  "camelot_env candidates =
     \<lparr>pdfplumber_open = Inr [Inr []],
      camelot_read_pdf = (\<lambda>page_number. Inr candidates),
      to_excel = (\<lambda>df. None)\<rparr>"

section \<open>The column scan and the word loop\<close>

lemma column_intervals_simps [simp]:
  "column_intervals [] = []"
  "column_intervals [a] = [(a, None)]"
  "column_intervals (a # b # r) = (a, Some b) # column_intervals (b # r)"
  by (simp_all add: column_intervals_def)

lemma length_column_intervals [simp]: "length (column_intervals cps) = length cps"
  by (simp add: column_intervals_def)

lemma in_interval_column_intervals:
  "m < length cps \<Longrightarrow> in_interval x (column_intervals cps ! m) = in_column cps m x"
proof (induction cps arbitrary: m rule: induct_list012)
  case 1
  then show ?case by simp
next
  case (2 a)
  then show ?case by (simp add: in_column_def)
next
  case (3 a b r)
  show ?case
  proof (cases m)
    case 0
    then show ?thesis by (simp add: in_column_def)
  next
    case (Suc m')
    then show ?thesis using 3(2) [of m'] 3(3) by (simp add: in_column_def)
  qed
qed

lemma scan_columns_Some:
  "scan_columns j ivs x = Some i \<longleftrightarrow>
     j \<le> i \<and> i - j < length ivs \<and> in_interval x (ivs ! (i - j)) \<and>
     (\<forall>m < i - j. \<not> in_interval x (ivs ! m))"
proof (induction ivs arbitrary: j)
  case Nil
  then show ?case by simp
next
  case (Cons iv ivs)
  show ?case
  proof (cases "in_interval x iv")
    case True
    then show ?thesis by (auto simp: nth_Cons split: nat.splits)
  next
    case False
    have "(Suc j \<le> i \<and> i - Suc j < length ivs \<and> in_interval x (ivs ! (i - Suc j)) \<and>
            (\<forall>m < i - Suc j. \<not> in_interval x (ivs ! m))) \<longleftrightarrow>
          (j \<le> i \<and> i - j < length (iv # ivs) \<and> in_interval x ((iv # ivs) ! (i - j)) \<and>
            (\<forall>m < i - j. \<not> in_interval x ((iv # ivs) ! m)))"
      (is "?L \<longleftrightarrow> ?R")
    proof
      assume l: ?L
      then have ij: "i - j = Suc (i - Suc j)" by arith
      have "\<not> in_interval x ((iv # ivs) ! m)" if "m < i - j" for m
        using that l False ij by (cases m) auto
      then show ?R using l ij by auto
    next
      assume r: ?R
      then have "i \<noteq> j" using False by (cases "i = j") auto
      then have ij: "i - j = Suc (i - Suc j)" using r by arith
      have "\<not> in_interval x (ivs ! m)" if "m < i - Suc j" for m
      proof -
        have "Suc m < i - j" using that ij by arith
        then have "\<not> in_interval x ((iv # ivs) ! Suc m)" using r by blast
        then show ?thesis by simp
      qed
      then show ?L using r ij by auto
    qed
    then show ?thesis using False Cons.IH [of "Suc j"] by simp
  qed
qed

lemma in_column_unique:
  assumes "sorted cps" "in_column cps i x" "in_column cps j x"
  shows "i = j"
proof -
  have False if lt: "a < b" and ia: "in_column cps a x" and ib: "in_column cps b x" for a b
  proof -
    have "Suc a < length cps" using lt ib by (simp add: in_column_def)
    then have "x < cps ! Suc a" using ia by (auto simp: in_column_def)
    moreover have "cps ! Suc a \<le> cps ! b"
      using assms(1) lt ib by (simp add: sorted_iff_nth_mono in_column_def)
    moreover have "cps ! b \<le> x" using ib by (simp add: in_column_def)
    ultimately show False by simp
  qed
  then show ?thesis
    using assms(2,3) by (metis linorder_neqE_nat)
qed

lemma scan_columns_in_column:
  assumes "sorted cps"
  shows "scan_columns 0 (column_intervals cps) x = Some i \<longleftrightarrow> in_column cps i x"
proof
  assume "scan_columns 0 (column_intervals cps) x = Some i"
  then show "in_column cps i x"
    using in_interval_column_intervals [of i cps x] by (simp add: scan_columns_Some)
next
  assume ic: "in_column cps i x"
  then have i: "i < length cps" by (simp add: in_column_def)
  have "\<not> in_interval x (column_intervals cps ! m)" if "m < i" for m
  proof
    assume "in_interval x (column_intervals cps ! m)"
    then have "in_column cps m x"
      using that i by (simp add: in_interval_column_intervals)
    then show False using in_column_unique [OF assms ic] that by blast
  qed
  then show "scan_columns 0 (column_intervals cps) x = Some i"
    using ic i in_interval_column_intervals [of i cps x] by (simp add: scan_columns_Some)
qed

lemma below_first_no_column:
  assumes "sorted cps" "cps \<noteq> []" "x < hd cps"
  shows "\<not> in_column cps i x"
proof
  assume ic: "in_column cps i x"
  then have "cps ! 0 \<le> cps ! i"
    using assms(1) by (simp add: sorted_iff_nth_mono in_column_def)
  then show False
    using ic assms(2,3) by (simp add: in_column_def hd_conv_nth)
qed


lemma map_of_ensure_row:
  "map_of (ensure_row n k rows) k' =
     (if k' = k \<and> k \<notin> set (map fst rows) then Some (replicate n []) else map_of rows k')"
proof (cases "k \<in> set (map fst rows)")
  case True
  then show ?thesis by (simp add: ensure_row_def)
next
  case False
  then have none: "map_of rows k = None" by (simp add: map_of_eq_None_iff)
  show ?thesis
    using False none by (auto simp: ensure_row_def map_add_def split: option.splits)
qed

lemma keys_ensure_row:
  "map fst (ensure_row n k rows) =
     (if k \<in> set (map fst rows) then map fst rows else map fst rows @ [k])"
  by (simp add: ensure_row_def)

lemma grid_ok_ensure_row: "grid_ok n rows \<Longrightarrow> grid_ok n (ensure_row n k rows)"
  by (auto simp: grid_ok_def ensure_row_def)

lemma keys_append_text [simp]: "map fst (append_text k idx t rows) = map fst rows"
  by (induction rows) auto

lemma map_of_append_text:
  "map_of (append_text k idx t rows) k' =
     (if k' = k then map_option (\<lambda>cells. cells[idx := cells ! idx @ [t]]) (map_of rows k)
      else map_of rows k')"
  by (induction rows) auto

lemma grid_ok_append_text: "grid_ok n rows \<Longrightarrow> grid_ok n (append_text k idx t rows)"
proof -
  have "list_all (\<lambda>(k, cells). length cells = n) rows \<Longrightarrow>
        list_all (\<lambda>(k, cells). length cells = n) (append_text k idx t rows)"
    by (induction rows) auto
  then show "grid_ok n rows \<Longrightarrow> grid_ok n (append_text k idx t rows)"
    by (simp add: grid_ok_def)
qed

lemma grid_ok_lookup: "grid_ok n rows \<Longrightarrow> map_of rows k = Some cells \<Longrightarrow> length cells = n"
  by (auto simp: grid_ok_def list_all_iff dest: map_of_SomeD)

lemma cell_at_ensure_row: "cell_at (ensure_row n k rows) k' i = cell_at rows k' i"
proof (cases "k' = k \<and> k \<notin> set (map fst rows)")
  case True
  then have "map_of rows k' = None" by (simp add: map_of_eq_None_iff)
  then show ?thesis using True by (simp add: cell_at_def map_of_ensure_row)
next
  case False
  then show ?thesis by (auto simp: cell_at_def map_of_ensure_row)
qed

lemma place_word_step:
  assumes ok: "grid_ok n rows" and srt: "sorted cps" and len: "length cps \<le> n"
  shows "\<exists>rows'. place_word n cps rows w = Inr rows'
           \<and> grid_ok n rows'
           \<and> map fst rows' = map fst (ensure_row n (py_round_tens (word_top w)) rows)
           \<and> (\<forall>k i. i < n \<longrightarrow>
                cell_at rows' k i =
                  cell_at rows k i @
                  (if py_round_tens (word_top w) = k \<and> in_column cps i (word_x0 w)
                   then [word_text w] else []))"
proof -
  let ?k = "py_round_tens (word_top w)"
  let ?rows1 = "ensure_row n ?k rows"
  have ok1: "grid_ok n ?rows1" using ok by (rule grid_ok_ensure_row)
  show ?thesis
  proof (cases "scan_columns 0 (column_intervals cps) (word_x0 w)")
    case None
    then have "\<not> in_column cps i (word_x0 w)" for i
      using scan_columns_in_column [OF srt, of "word_x0 w" i] by simp
    then show ?thesis
      using None ok1 by (simp add: place_word_def Let_def cell_at_ensure_row)
  next
    case (Some idx)
    then have ic: "in_column cps idx (word_x0 w)"
      using scan_columns_in_column [OF srt] by simp
    then have idx: "idx < n" using len by (simp add: in_column_def)
    have "?k \<in> set (map fst ?rows1)" by (simp add: ensure_row_def)
    then obtain cells where cells: "map_of ?rows1 ?k = Some cells"
      by (metis map_of_eq_None_iff not_Some_eq set_map)
    then have lc: "length cells = n" using ok1 by (rule grid_ok_lookup [rotated])
    let ?rows' = "append_text ?k idx (word_text w) ?rows1"
    have res: "place_word n cps rows w = Inr ?rows'"
      using Some cells lc idx by (simp add: place_word_def Let_def)
    have cell: "cell_at ?rows' k i =
                  cell_at rows k i @
                  (if ?k = k \<and> in_column cps i (word_x0 w) then [word_text w] else [])"
      if i: "i < n" for k i
    proof (cases "k = ?k")
      case False
      then show ?thesis
        using cell_at_ensure_row [of n ?k rows k i]
        by (auto simp: cell_at_def map_of_append_text)
    next
      case True
      have same: "in_column cps i (word_x0 w) \<longleftrightarrow> i = idx"
        using in_column_unique [OF srt ic] ic by blast
      have "cell_at ?rows1 ?k i = cells ! i"
        using cells lc i by (simp add: cell_at_def)
      then have old: "cell_at rows ?k i = cells ! i"
        by (simp add: cell_at_ensure_row)
      have "cell_at ?rows' ?k i = (cells[idx := cells ! idx @ [word_text w]]) ! i"
        using cells lc i by (simp add: cell_at_def map_of_append_text)
      then show ?thesis
        using True same old lc idx i by (auto simp: nth_list_update)
    qed
    show ?thesis
      using res grid_ok_append_text [OF ok1] cell by auto
  qed
qed

lemma build_rows_cells:
  assumes "grid_ok n rows" "sorted cps" "length cps \<le> n"
  shows "\<exists>rows'. build_rows n cps ws rows = Inr rows'
           \<and> grid_ok n rows'
           \<and> set (map fst rows') = set (map fst rows) \<union> (\<lambda>w. py_round_tens (word_top w)) ` set ws
           \<and> (\<forall>k i. i < n \<longrightarrow>
                cell_at rows' k i =
                  cell_at rows k i @
                  map word_text
                    (filter (\<lambda>w. py_round_tens (word_top w) = k \<and> in_column cps i (word_x0 w)) ws))"
  using assms
proof (induction ws arbitrary: rows)
  case Nil
  then show ?case by simp
next
  case (Cons w ws)
  obtain rows1 where r1: "place_word n cps rows w = Inr rows1"
    and ok1: "grid_ok n rows1"
    and k1: "map fst rows1 = map fst (ensure_row n (py_round_tens (word_top w)) rows)"
    and c1: "\<And>k i. i < n \<Longrightarrow>
                cell_at rows1 k i =
                  cell_at rows k i @
                  (if py_round_tens (word_top w) = k \<and> in_column cps i (word_x0 w)
                   then [word_text w] else [])"
    using place_word_step [OF Cons.prems, of w] by blast
  obtain rows' where r2: "build_rows n cps ws rows1 = Inr rows'"
    and ok2: "grid_ok n rows'"
    and k2: "set (map fst rows') = set (map fst rows1) \<union> (\<lambda>w. py_round_tens (word_top w)) ` set ws"
    and c2: "\<And>k i. i < n \<Longrightarrow>
                cell_at rows' k i =
                  cell_at rows1 k i @
                  map word_text
                    (filter (\<lambda>w. py_round_tens (word_top w) = k \<and> in_column cps i (word_x0 w)) ws)"
    using Cons.IH [OF ok1 Cons.prems(2,3)] by blast
  have keys: "set (map fst rows') =
              set (map fst rows) \<union> (\<lambda>w. py_round_tens (word_top w)) ` set (w # ws)"
    using k2 k1 by (auto simp: keys_ensure_row split: if_splits)
  have cells: "cell_at rows' k i =
                 cell_at rows k i @
                 map word_text
                   (filter (\<lambda>w. py_round_tens (word_top w) = k \<and> in_column cps i (word_x0 w))
                      (w # ws))"
    if "i < n" for k i
    using c2 [OF that, of k] c1 [OF that, of k] by simp
  show ?case
    using r1 r2 ok2 keys cells by simp
qed

lemma clean_dataframe_same_columns:
  "df_columns d = hs \<Longrightarrow> \<exists>d'. clean_dataframe (Some d) hs = Inr d'"
  by (cases hs) (auto simp: clean_dataframe_def df_empty_def)

lemma grid_ok_Nil: "grid_ok n []"
  by (simp add: grid_ok_def)

lemma cell_at_Nil: "cell_at [] k i = []"
  by (simp add: cell_at_def)

lemma extract_no_error:
  assumes "build_rows (length hs) cps ws [] = Inr rows"
  shows "snd (extract_page_data_with_pdfplumber (Inr ws) cps hs) = []"
proof -
  obtain d' where
    "clean_dataframe (Some (frame_of_rows (data_rows rows) hs)) hs = Inr d'"
    using clean_dataframe_same_columns [of "frame_of_rows (data_rows rows) hs" hs]
    by (auto simp: frame_of_rows_def)
  then show ?thesis
    using assms by (simp add: extract_page_data_with_pdfplumber_def)
qed

lemma length_data_rows [simp]: "length (data_rows rows) = length rows"
  by (simp add: data_rows_def)

lemma data_rows_Nil_iff: "data_rows rows = [] \<longleftrightarrow> rows = []"
  using length_data_rows [of rows] by (metis length_0_conv)

lemma sort_distinct_keys:
  "distinct xs \<Longrightarrow> sort xs = sorted_list_of_set (set xs)"
  by (simp add: sorted_list_of_set_sort_remdups distinct_remdups_id)

lemma data_rows_cells:
  assumes "grid_ok n rows"
  shows "data_rows rows =
           map (\<lambda>k. map (\<lambda>i. strip (join_space (cell_at rows k i))) [0..<n])
             (sorted_list_of_set (set (map fst rows)))"
proof -
  have d: "distinct (map fst rows)" using assms by (simp add: grid_ok_def)
  have row: "map (\<lambda>cell. strip (join_space cell))
               (case map_of rows k of None \<Rightarrow> [] | Some cells \<Rightarrow> cells) =
             map (\<lambda>i. strip (join_space (cell_at rows k i))) [0..<n]"
    if "k \<in> set (map fst rows)" for k
  proof -
    from that obtain cells where c: "map_of rows k = Some cells"
      by (cases "map_of rows k") (auto simp: map_of_eq_None_iff)
    have l: "length cells = n" using assms c by (rule grid_ok_lookup)
    have "map (\<lambda>cell. strip (join_space cell)) cells =
          map (\<lambda>i. strip (join_space (cells ! i))) [0..<length cells]"
      by (rule nth_equalityI) simp_all
    also have "\<dots> = map (\<lambda>i. strip (join_space (cell_at rows k i))) [0..<n]"
      using c l by (simp add: cell_at_def)
    finally show ?thesis using c by simp
  qed
  have "data_rows rows =
          map (\<lambda>k. map (\<lambda>i. strip (join_space (cell_at rows k i))) [0..<n])
            (sort (map fst rows))"
    unfolding data_rows_def using row by (intro map_cong) auto
  then show ?thesis using sort_distinct_keys [OF d] by simp
qed

text \<open>
  Claim C1. For column boundaries in ascending order, not more of them than headers:
  the word loop never fails, and the bucket of a row key and a column holds, in the
  order of the tokens, the texts of exactly the tokens with that row key whose \<open>x0\<close>
  lies in the boundary interval of that column (the last interval has no upper end). A
  token has at most one such column. A token with \<open>x0\<close> below the first boundary has
  none, so its text reaches no cell; and \<^verbatim>\<open>extract_page_data_with_pdfplumber\<close>
  reports no error. What the function returns is built from these buckets: None for a
  page without tokens, otherwise the cleaned frame whose rows are the row keys in
  ascending order and whose cell in a column is the texts of that bucket joined by one
  space and stripped.
\<close>

theorem word_column_assignment:
  assumes "sorted cps" and "length cps \<le> length hs"
  shows "(\<exists>rows. build_rows (length hs) cps ws [] = Inr rows
            \<and> (\<forall>k i. i < length hs \<longrightarrow>
                  cell_at rows k i =
                    map word_text
                      (filter (\<lambda>w. py_round_tens (word_top w) = k \<and> in_column cps i (word_x0 w))
                         ws)))
       \<and> (\<forall>x i j. in_column cps i x \<and> in_column cps j x \<longrightarrow> i = j)
       \<and> (\<forall>x i. cps \<noteq> [] \<and> x < hd cps \<longrightarrow> \<not> in_column cps i x)
       \<and> snd (extract_page_data_with_pdfplumber (Inr ws) cps hs) = []
       \<and> (\<exists>df. clean_dataframe
                  (Some \<lparr>df_columns = hs,
                         df_rows =
                           map (\<lambda>k. map (\<lambda>i. Str (strip (join_space (map word_text
                                         (filter (\<lambda>w. py_round_tens (word_top w) = k
                                                      \<and> in_column cps i (word_x0 w)) ws)))))
                                      [0..<length hs])
                             (sorted_list_of_set ((\<lambda>w. py_round_tens (word_top w)) ` set ws))\<rparr>)
                  hs = Inr df
              \<and> extract_page_data_with_pdfplumber (Inr ws) cps hs =
                  (if ws = [] then None else Some df, []))"
proof -
  let ?cell = "\<lambda>k i. map word_text
                 (filter (\<lambda>w. py_round_tens (word_top w) = k \<and> in_column cps i (word_x0 w)) ws)"
  let ?keys = "sorted_list_of_set ((\<lambda>w. py_round_tens (word_top w)) ` set ws)"
  let ?frame = "\<lparr>df_columns = hs,
                 df_rows = map (\<lambda>k. map (\<lambda>i. Str (strip (join_space (?cell k i))))
                                  [0..<length hs]) ?keys\<rparr>"
  obtain rows where r: "build_rows (length hs) cps ws [] = Inr rows"
    and ok: "grid_ok (length hs) rows"
    and k: "set (map fst rows) = (\<lambda>w. py_round_tens (word_top w)) ` set ws"
    and c: "\<And>k i. i < length hs \<Longrightarrow> cell_at rows k i = ?cell k i"
    using build_rows_cells [OF grid_ok_Nil assms, of ws] by (auto simp: cell_at_Nil)
  have u: "\<forall>x i j. in_column cps i x \<and> in_column cps j x \<longrightarrow> i = j"
    using in_column_unique [OF assms(1)] by blast
  have b: "\<forall>x i. cps \<noteq> [] \<and> x < hd cps \<longrightarrow> \<not> in_column cps i x"
    using below_first_no_column [OF assms(1)] by blast
  have dr: "data_rows rows =
              map (\<lambda>k. map (\<lambda>i. strip (join_space (?cell k i))) [0..<length hs]) ?keys"
  proof -
    have "map (\<lambda>i. strip (join_space (cell_at rows key i))) [0..<length hs] =
          map (\<lambda>i. strip (join_space (?cell key i))) [0..<length hs]" for key
      using c by simp
    then show ?thesis
      using data_rows_cells [OF ok] k by simp
  qed
  have fr: "frame_of_rows (data_rows rows) hs = ?frame"
    by (simp add: dr frame_of_rows_def o_def)
  obtain df where cl: "clean_dataframe (Some ?frame) hs = Inr df"
    using clean_dataframe_same_columns [of ?frame hs] by auto
  have e: "data_rows rows = [] \<longleftrightarrow> ws = []"
    using k by (simp add: data_rows_Nil_iff) (metis image_is_empty map_is_Nil_conv set_empty set_map)
  have ex: "extract_page_data_with_pdfplumber (Inr ws) cps hs =
              (if ws = [] then None else Some df, [])"
    using r e cl fr by (simp add: extract_page_data_with_pdfplumber_def)
  show ?thesis
    using r c u b cl ex by auto
qed

theorem word_column_assignment_witness:
  "sorted column_positions \<and> length column_positions \<le> length expected_headers
   \<and> (\<exists>rows. build_rows (length expected_headers) column_positions
                [\<lparr>word_text = ''A'', word_x0 = 40, word_top = 100\<rparr>,
                 \<lparr>word_text = ''B'', word_x0 = 10, word_top = 100\<rparr>,
                 \<lparr>word_text = ''C'', word_x0 = 80, word_top = 101\<rparr>] [] = Inr rows
          \<and> cell_at rows 100 0 = [''A'', ''C''] \<and> cell_at rows 100 1 = [])
   \<and> extract_page_data_with_pdfplumber
        (Inr [\<lparr>word_text = ''A'', word_x0 = 40, word_top = 100\<rparr>,
              \<lparr>word_text = ''B'', word_x0 = 10, word_top = 100\<rparr>,
              \<lparr>word_text = ''C'', word_x0 = 80, word_top = 101\<rparr>])
        column_positions expected_headers =
       (Some \<lparr>df_columns = expected_headers,
              df_rows = [[Str ''A C'', Str '''', Str '''', Str '''', Str '''', Str '''', Str '''']]\<rparr>,
        [])"
proof -
  have s: "sorted column_positions"
    by (simp add: column_positions_def)
  have l: "length column_positions \<le> length expected_headers"
    by (simp add: column_positions_def expected_headers_def)
  have r: "py_round_tens 100 = 100" "py_round_tens 101 = 100"
    by code_simp+
  have c: "in_column column_positions 0 40" "in_column column_positions 0 80"
    "\<not> in_column column_positions 0 10" "\<not> in_column column_positions 1 40"
    "\<not> in_column column_positions 1 80" "\<not> in_column column_positions 1 10"
    "\<not> in_column column_positions (Suc 0) 40" "\<not> in_column column_positions (Suc 0) 80"
    "\<not> in_column column_positions (Suc 0) 10"
    by (simp_all add: in_column_def column_positions_def)
  have n: "0 < length expected_headers" "1 < length expected_headers"
    by (simp_all add: expected_headers_def)
  let ?ws = "[\<lparr>word_text = ''A'', word_x0 = 40, word_top = 100\<rparr>,
              \<lparr>word_text = ''B'', word_x0 = 10, word_top = 100\<rparr>,
              \<lparr>word_text = ''C'', word_x0 = 80, word_top = 101\<rparr>]"
  let ?out = "\<lparr>df_columns = expected_headers,
               df_rows = [[Str ''A C'', Str '''', Str '''', Str '''', Str '''', Str '''', Str '''']]\<rparr>"
  note t = word_column_assignment [OF s l, of ?ws]
  from t obtain rows where
    b: "build_rows (length expected_headers) column_positions ?ws [] = Inr rows" and
    f: "\<And>k i. i < length expected_headers \<Longrightarrow>
          cell_at rows k i =
            map word_text
              (filter (\<lambda>w. py_round_tens (word_top w) = k \<and>
                            in_column column_positions i (word_x0 w)) ?ws)"
    by blast
  have c0: "cell_at rows 100 0 = [''A'', ''C'']"
    using f [OF n(1), of 100] by (simp add: r c)
  have c1: "cell_at rows 100 1 = []"
    using f [OF n(2), of 100] by (simp add: r c)
  from t obtain df where
    cl: "clean_dataframe
           (Some \<lparr>df_columns = expected_headers,
                  df_rows =
                    map (\<lambda>k. map (\<lambda>i. Str (strip (join_space (map word_text
                                  (filter (\<lambda>w. py_round_tens (word_top w) = k
                                               \<and> in_column column_positions i (word_x0 w)) ?ws)))))
                               [0..<length expected_headers])
                      (sorted_list_of_set ((\<lambda>w. py_round_tens (word_top w)) ` set ?ws))\<rparr>)
           expected_headers = Inr df" and
    ex: "extract_page_data_with_pdfplumber (Inr ?ws) column_positions expected_headers =
           (if ?ws = [] then None else Some df, [])"
    by blast
  have fr: "\<lparr>df_columns = expected_headers,
             df_rows =
               map (\<lambda>k. map (\<lambda>i. Str (strip (join_space (map word_text
                             (filter (\<lambda>w. py_round_tens (word_top w) = k
                                          \<and> in_column column_positions i (word_x0 w)) ?ws)))))
                          [0..<length expected_headers])
                 (sorted_list_of_set ((\<lambda>w. py_round_tens (word_top w)) ` set ?ws))\<rparr> = ?out"
    by code_simp
  have "clean_dataframe (Some ?out) expected_headers = Inr ?out"
    by code_simp
  then have "df = ?out"
    using cl unfolding fr by simp
  then have e: "extract_page_data_with_pdfplumber (Inr ?ws) column_positions expected_headers =
                  (Some ?out, [])"
    using ex by simp
  show ?thesis
    using s l b c0 c1 e by blast
qed

section \<open>Row keys\<close>

lemma grid_ok_row_count:
  "grid_ok n rows \<Longrightarrow> length (data_rows rows) = card (set (map fst rows))"
  using distinct_card [of "map fst rows"] by (simp add: grid_ok_def)

lemma py_round_tens_scenario:
  "py_round_tens 100 = 100" "py_round_tens 109 = 110" "py_round_tens 121 = 120"
  "py_round_tens 104 = 100"
  by code_simp+

text \<open>
  Claim C2 as stated fails. \<^verbatim>\<open>round(y0, -1)\<close> rounds to the nearest multiple of
  ten, so the tops 100, 109 and 121 get the three row keys 100, 110 and 120, and a page
  with exactly these three tokens comes back with three rows.
\<close>

theorem scenario_b_counterexample:
  "py_round_tens 100 = 100 \<and> py_round_tens 109 = 110 \<and> py_round_tens 121 = 120
   \<and> fst (extract_page_data_with_pdfplumber
            (Inr [\<lparr>word_text = ''a'', word_x0 = 40, word_top = 100\<rparr>,
                  \<lparr>word_text = ''b'', word_x0 = 40, word_top = 109\<rparr>,
                  \<lparr>word_text = ''c'', word_x0 = 40, word_top = 121\<rparr>])
            column_positions expected_headers) =
       Some \<lparr>df_columns = expected_headers,
             df_rows = [[Str ''a'', Str '''', Str '''', Str '''', Str '''', Str '''', Str ''''],
                        [Str ''b'', Str '''', Str '''', Str '''', Str '''', Str '''', Str ''''],
                        [Str ''c'', Str '''', Str '''', Str '''', Str '''', Str '''', Str '''']]\<rparr>"
  by code_simp

text \<open>
  Claim C2, amended. Tokens with the tops 100, 109 and 121 get the distinct row keys
  100, 110 and 120, whatever their texts and horizontal positions, and the grid built
  from exactly these three tokens has exactly 3 rows (for boundaries in ascending order,
  not more of them than headers).
\<close>

theorem scenario_b_three_rows:
  assumes "sorted cps" and "length cps \<le> length hs"
    and "word_top w1 = 100" and "word_top w2 = 109" and "word_top w3 = 121"
  shows "py_round_tens (word_top w1) = 100 \<and> py_round_tens (word_top w2) = 110
       \<and> py_round_tens (word_top w3) = 120
       \<and> (\<exists>rows. build_rows (length hs) cps [w1, w2, w3] [] = Inr rows
              \<and> set (map fst rows) = {100, 110, 120}
              \<and> length (data_rows rows) = 3)"
proof -
  obtain rows where r: "build_rows (length hs) cps [w1, w2, w3] [] = Inr rows"
    and ok: "grid_ok (length hs) rows"
    and k: "set (map fst rows) =
              set (map fst ([] :: grid)) \<union> (\<lambda>w. py_round_tens (word_top w)) ` set [w1, w2, w3]"
    using build_rows_cells [OF grid_ok_Nil assms(1,2), of "[w1, w2, w3]"] by blast
  have keys: "set (map fst rows) = {100, 110, 120}"
    using k assms(3-5) by (simp add: py_round_tens_scenario)
  have "card {100, 110, 120 :: rat} = 3" by simp
  then have "length (data_rows rows) = 3"
    using grid_ok_row_count [OF ok] keys by simp
  then show ?thesis
    using r keys assms(3-5) by (simp add: py_round_tens_scenario)
qed

theorem scenario_b_three_rows_witness:
  "sorted column_positions \<and> length column_positions \<le> length expected_headers
   \<and> (\<exists>rows. build_rows (length expected_headers) column_positions
                [\<lparr>word_text = ''a'', word_x0 = 40, word_top = 100\<rparr>,
                 \<lparr>word_text = ''b'', word_x0 = 40, word_top = 109\<rparr>,
                 \<lparr>word_text = ''c'', word_x0 = 40, word_top = 121\<rparr>] [] = Inr rows
          \<and> length (data_rows rows) = 3)"
proof -
  have s: "sorted column_positions"
    by (simp add: column_positions_def)
  have l: "length column_positions \<le> length expected_headers"
    by (simp add: column_positions_def expected_headers_def)
  show ?thesis
    using s l scenario_b_three_rows [OF s l,
        of "\<lparr>word_text = ''a'', word_x0 = 40, word_top = 100\<rparr>"
           "\<lparr>word_text = ''b'', word_x0 = 40, word_top = 109\<rparr>"
           "\<lparr>word_text = ''c'', word_x0 = 40, word_top = 121\<rparr>"]
    by auto
qed

subsection \<open>Pages whose words match no column\<close>

lemma strip_Nil [simp]: "strip [] = []"
  by (simp add: strip_def)

lemma place_word_no_column:
  "scan_columns 0 (column_intervals cps) (word_x0 w) = None \<Longrightarrow>
   place_word n cps rows w = Inr (ensure_row n (py_round_tens (word_top w)) rows)"
  by (simp add: place_word_def Let_def)

lemma build_rows_blank:
  assumes "\<forall>w \<in> set ws. scan_columns 0 (column_intervals cps) (word_x0 w) = None"
    and "distinct (map fst rows)" and "\<forall>p \<in> set rows. snd p = replicate n []"
  shows "\<exists>rows'. build_rows n cps ws rows = Inr rows'
           \<and> distinct (map fst rows')
           \<and> set (map fst rows') = set (map fst rows) \<union> (\<lambda>w. py_round_tens (word_top w)) ` set ws
           \<and> (\<forall>p \<in> set rows'. snd p = replicate n [])"
  using assms
proof (induction ws arbitrary: rows)
  case Nil
  then show ?case by simp
next
  case (Cons w ws)
  let ?rows1 = "ensure_row n (py_round_tens (word_top w)) rows"
  have p: "place_word n cps rows w = Inr ?rows1"
    using Cons.prems(1) by (simp add: place_word_no_column)
  have d: "distinct (map fst ?rows1)" and b: "\<forall>p \<in> set ?rows1. snd p = replicate n []"
    using Cons.prems(2,3) by (auto simp: ensure_row_def)
  obtain rows' where r: "build_rows n cps ws ?rows1 = Inr rows'"
    and d': "distinct (map fst rows')"
    and k': "set (map fst rows') = set (map fst ?rows1) \<union> (\<lambda>w. py_round_tens (word_top w)) ` set ws"
    and b': "\<forall>p \<in> set rows'. snd p = replicate n []"
    using Cons.IH [OF _ d b] Cons.prems(1) by auto
  have "set (map fst rows') =
        set (map fst rows) \<union> (\<lambda>w. py_round_tens (word_top w)) ` set (w # ws)"
    using k' by (auto simp: keys_ensure_row split: if_splits)
  then show ?case
    using p r d' b' by simp
qed

lemma data_rows_blank:
  assumes "\<forall>p \<in> set rows. snd p = replicate n []"
  shows "data_rows rows = replicate (length rows) (replicate n '''')"
proof -
  have "map (\<lambda>cell. strip (join_space cell))
          (case map_of rows k of None \<Rightarrow> [] | Some cells \<Rightarrow> cells) = replicate n ''''"
    if "k \<in> set (sort (map fst rows))" for k
  proof -
    from that obtain cells where c: "map_of rows k = Some cells"
      by (cases "map_of rows k") (auto simp: map_of_eq_None_iff)
    then have "cells = replicate n []"
      using assms map_of_SomeD [OF c] by auto
    then show ?thesis using c by simp
  qed
  then have "data_rows rows = map (\<lambda>k. replicate n '''') (sort (map fst rows))"
    unfolding data_rows_def by (intro map_cong) auto
  then show ?thesis by (simp add: map_replicate_const)
qed

lemma scan_columns_below_first:
  assumes "sorted cps" "cps \<noteq> []" "x < hd cps"
  shows "scan_columns 0 (column_intervals cps) x = None"
proof (cases "scan_columns 0 (column_intervals cps) x")
  case None
  then show ?thesis .
next
  case (Some i)
  then show ?thesis
    using scan_columns_in_column [OF assms(1), of x i] below_first_no_column [OF assms, of i]
    by simp
qed

lemma clean_dataframe_blank_rows:
  assumes "hs \<noteq> []" "hd hs \<noteq> ''''" "0 < m"
  shows "clean_dataframe
           (Some \<lparr>df_columns = hs, df_rows = replicate m (replicate (length hs) (Str ''''))\<rparr>) hs =
         Inr \<lparr>df_columns = hs, df_rows = replicate m (replicate (length hs) (Str ''''))\<rparr>"
proof -
  obtain h hs' where hs: "hs = h # hs'" using assms(1) by (cases hs) auto
  have "dropna_all (drop_header_rows h (replicate m (replicate (length hs) (Str '''')))) =
        replicate m (replicate (length hs) (Str ''''))"
    using assms(2) hs
    by (simp add: dropna_all_def drop_header_rows_def all_na_def)
  then show ?thesis
    using assms(3) hs by (simp add: clean_dataframe_def df_empty_def)
qed

section \<open>clean_dataframe: header rows, empty rows, idempotence\<close>

text \<open>
  Claim C5. The claim is that no row of the cleaned table has only empty or undefined
  values. \<^verbatim>\<open>dropna(how='all')\<close> removes the rows whose values are all missing
  (NaN / None); the empty string is a value for pandas. The frames the pipeline builds
  hold strings only, so a row of seven empty strings, which a page yields when all its
  words lie left of the first boundary, comes back unchanged:
\<close>

theorem clean_dataframe_keeps_blank_row:
  "clean_dataframe
     (Some \<lparr>df_columns = expected_headers,
            df_rows = [[Str '''', Str '''', Str '''', Str '''', Str '''', Str '''', Str '''']]\<rparr>)
     expected_headers =
   Inr \<lparr>df_columns = expected_headers,
        df_rows = [[Str '''', Str '''', Str '''', Str '''', Str '''', Str '''', Str '''']]\<rparr>"
  by (simp add: clean_dataframe_def df_empty_def expected_headers_def dropna_all_def
      drop_header_rows_def all_na_def)

text \<open>What \<^verbatim>\<open>dropna(how='all')\<close> does ensure: no row of missing values only.\<close>

lemma clean_dataframe_no_all_na_row:
  "clean_dataframe df hs = Inr d' \<Longrightarrow> r \<in> set (df_rows d') \<Longrightarrow> \<not> all_na r"
  by (auto simp: clean_dataframe_def empty_frame_def dropna_all_def
      split: option.splits if_splits list.splits)

lemma first_is_header_hd: "first_is_header h r \<longleftrightarrow> r \<noteq> [] \<and> hd r = Str h"
  by (cases r) auto

text \<open>
  Claim C6. On a table with rows and columns, \<^verbatim>\<open>clean_dataframe\<close> keeps the column
  labels and returns, in order, the rows whose first value is not the first expected
  header, less the rows of missing values only. So no returned row starts with the header
  text, and a row that carries the header text only in a later column is kept.
\<close>

theorem header_rows_dropped_on_first_column:
  assumes "\<not> df_empty d"
  shows "\<exists>d'. clean_dataframe (Some d) (h # hs) = Inr d'
           \<and> df_columns d' = df_columns d
           \<and> df_rows d' =
               filter (\<lambda>r. \<not> all_na r) (filter (\<lambda>r. \<not> (r \<noteq> [] \<and> hd r = Str h)) (df_rows d))
           \<and> (\<forall>r \<in> set (df_rows d').  \<not> (r \<noteq> [] \<and> hd r = Str h))
           \<and> (\<forall>r \<in> set (df_rows d).
                 r \<noteq> [] \<and> hd r \<noteq> Str h \<and> Str h \<in> set (tl r) \<longrightarrow> r \<in> set (df_rows d'))"
proof -
  let ?d' = "d\<lparr>df_rows := dropna_all (drop_header_rows h (df_rows d))\<rparr>"
  have c: "clean_dataframe (Some d) (h # hs) = Inr ?d'"
    using assms by (simp add: clean_dataframe_def)
  have r: "df_rows ?d' =
             filter (\<lambda>r. \<not> all_na r) (filter (\<lambda>r. \<not> (r \<noteq> [] \<and> hd r = Str h)) (df_rows d))"
    by (simp add: dropna_all_def drop_header_rows_def first_is_header_hd)
  have k: "r \<in> set (df_rows ?d')"
    if "r \<in> set (df_rows d)" "r \<noteq> []" "hd r \<noteq> Str h" "Str h \<in> set (tl r)" for r
  proof -
    have "Str h \<in> set r" using that(2,4) by (cases r) auto
    then have "\<not> all_na r" by (auto simp: all_na_def list_all_iff)
    then show ?thesis using that r by simp
  qed
  show ?thesis
    using c r k by auto
qed

theorem header_rows_dropped_on_first_column_witness:
  "\<not> df_empty \<lparr>df_columns = [''A'', ''B''],
                df_rows = [[Str ''A'', Str ''B''], [Str ''x'', Str ''A''], [Str ''y'', NaN]]\<rparr>
   \<and> clean_dataframe
        (Some \<lparr>df_columns = [''A'', ''B''],
               df_rows = [[Str ''A'', Str ''B''], [Str ''x'', Str ''A''], [Str ''y'', NaN]]\<rparr>)
        [''A'', ''B''] =
       Inr \<lparr>df_columns = [''A'', ''B''], df_rows = [[Str ''x'', Str ''A''], [Str ''y'', NaN]]\<rparr>"
proof -
  let ?d = "\<lparr>df_columns = [''A'', ''B''],
             df_rows = [[Str ''A'', Str ''B''], [Str ''x'', Str ''A''], [Str ''y'', NaN]]\<rparr>"
  have h: "\<not> df_empty ?d" by (simp add: df_empty_def)
  obtain d' where c: "clean_dataframe (Some ?d) [''A'', ''B''] = Inr d'"
    and cols: "df_columns d' = df_columns ?d"
    and rows: "df_rows d' =
       filter (\<lambda>r. \<not> all_na r) (filter (\<lambda>r. \<not> (r \<noteq> [] \<and> hd r = Str ''A'')) (df_rows ?d))"
    using header_rows_dropped_on_first_column [OF h, of "''A''" "[''B'']"] by blast
  have "d' = \<lparr>df_columns = [''A'', ''B''], df_rows = [[Str ''x'', Str ''A''], [Str ''y'', NaN]]\<rparr>"
    using cols rows by (cases d') (simp add: all_na_def)
  then show ?thesis using h c by simp
qed

text \<open>
  Claim C7 as stated, for every table and every header list, fails: a table whose column
  label is not the expected header and whose only row is a header row is cleaned to zero
  rows under its own label; cleaning that again returns
  \<^verbatim>\<open>pd.DataFrame(columns=expected_headers)\<close>, which has other column labels.
\<close>

theorem clean_dataframe_idempotent_counterexample:
  "clean_dataframe (Some \<lparr>df_columns = [''X''], df_rows = [[Str ''Receipt No.'']]\<rparr>)
     [''Receipt No.''] = Inr \<lparr>df_columns = [''X''], df_rows = []\<rparr>
   \<and> clean_dataframe (Some \<lparr>df_columns = [''X''], df_rows = []\<rparr>) [''Receipt No.''] =
       Inr \<lparr>df_columns = [''Receipt No.''], df_rows = []\<rparr>
   \<and> \<lparr>df_columns = [''X''], df_rows = []\<rparr> \<noteq> \<lparr>df_columns = [''Receipt No.''], df_rows = []\<rparr>"
  by (simp add: clean_dataframe_def df_empty_def empty_frame_def dropna_all_def
      drop_header_rows_def)

lemma drop_header_rows_dropna_idem:
  "dropna_all (drop_header_rows h (dropna_all (drop_header_rows h rs))) =
   dropna_all (drop_header_rows h rs)"
  by (induction rs) (auto simp: dropna_all_def drop_header_rows_def)

text \<open>
  Claim C7, amended. When the first application succeeds, so does the second, with the
  same rows, and with the same table whenever the once-cleaned table has a row or has the
  expected headers as its column labels; a once-cleaned table without rows comes back
  as the empty table labelled with the expected headers. For the undefined table and for every table
  whose column labels are the expected headers (all that \<^verbatim>\<open>process_pdf\<close> passes),
  applying \<^verbatim>\<open>clean_dataframe\<close> twice gives the same table as applying it once.
\<close>

theorem clean_dataframe_idempotent_same_schema:
  "(clean_dataframe df hs = Inr d1 \<longrightarrow>
      (\<exists>d2. clean_dataframe (Some d1) hs = Inr d2 \<and> df_rows d2 = df_rows d1
            \<and> (df_rows d1 \<noteq> [] \<or> df_columns d1 = hs \<longrightarrow> d2 = d1)
            \<and> (df_rows d1 = [] \<longrightarrow> d2 = empty_frame hs)))
   \<and> (df = None \<or> (\<exists>d. df = Some d \<and> df_columns d = hs) \<longrightarrow>
        (\<exists>d1. clean_dataframe df hs = Inr d1 \<and> clean_dataframe (Some d1) hs = Inr d1))"
proof -
  have e: "clean_dataframe (Some (empty_frame hs)) hs = Inr (empty_frame hs)"
    by (simp add: clean_dataframe_def df_empty_def empty_frame_def)
  have a: "\<exists>d2. clean_dataframe (Some x) hs = Inr d2 \<and> df_rows d2 = df_rows x
            \<and> (df_rows x \<noteq> [] \<or> df_columns x = hs \<longrightarrow> d2 = x)
            \<and> (df_rows x = [] \<longrightarrow> d2 = empty_frame hs)"
    if c: "clean_dataframe df hs = Inr x" for x
  proof (cases "df = None \<or> (\<exists>d. df = Some d \<and> df_empty d)")
    case True
    then have "x = empty_frame hs"
      using c by (auto simp: clean_dataframe_def)
    then show ?thesis using e by simp
  next
    case False
    then obtain d where d: "df = Some d" "\<not> df_empty d" by auto
    then obtain h hs' where hs: "hs = h # hs'"
      using c by (cases hs) (auto simp: clean_dataframe_def)
    have x: "x = d\<lparr>df_rows := dropna_all (drop_header_rows h (df_rows d))\<rparr>"
      using c d hs by (simp add: clean_dataframe_def)
    show ?thesis
    proof (cases "df_rows x = []")
      case True
      then have "df_empty x" by (simp add: df_empty_def)
      then have "clean_dataframe (Some x) hs = Inr (empty_frame hs)"
        by (simp add: clean_dataframe_def)
      then show ?thesis
        using True by (cases x) (auto simp: empty_frame_def)
    next
      case False
      then have "\<not> df_empty x" using d(2) x by (simp add: df_empty_def)
      then have "clean_dataframe (Some x) hs = Inr x"
        using x hs by (simp add: clean_dataframe_def drop_header_rows_dropna_idem)
      then show ?thesis using False by simp
    qed
  qed
  have b: "\<exists>d1. clean_dataframe df hs = Inr d1 \<and> clean_dataframe (Some d1) hs = Inr d1"
    if s: "df = None \<or> (\<exists>d. df = Some d \<and> df_columns d = hs)"
  proof -
    have "\<exists>d1. clean_dataframe df hs = Inr d1 \<and> df_columns d1 = hs"
      using s by (cases hs) (auto simp: clean_dataframe_def df_empty_def empty_frame_def)
    then obtain d1 where d1: "clean_dataframe df hs = Inr d1" "df_columns d1 = hs"
      by blast
    then show ?thesis using a [OF d1(1)] by auto
  qed
  show ?thesis using a b by blast
qed

theorem clean_dataframe_idempotent_same_schema_witness:
  "clean_dataframe
     (Some \<lparr>df_columns = [''A'', ''B''], df_rows = [[Str ''A'', Str ''B''], [Str ''x'', Str ''y'']]\<rparr>)
     [''A'', ''B''] = Inr \<lparr>df_columns = [''A'', ''B''], df_rows = [[Str ''x'', Str ''y'']]\<rparr>
   \<and> clean_dataframe (Some \<lparr>df_columns = [''A'', ''B''], df_rows = [[Str ''x'', Str ''y'']]\<rparr>)
       [''A'', ''B''] = Inr \<lparr>df_columns = [''A'', ''B''], df_rows = [[Str ''x'', Str ''y'']]\<rparr>"
proof -
  let ?d = "\<lparr>df_columns = [''A'', ''B''], df_rows = [[Str ''A'', Str ''B''], [Str ''x'', Str ''y'']]\<rparr>"
  let ?d1 = "\<lparr>df_columns = [''A'', ''B''], df_rows = [[Str ''x'', Str ''y'']]\<rparr>"
  have c: "clean_dataframe (Some ?d) [''A'', ''B''] = Inr ?d1"
    by (simp add: clean_dataframe_def df_empty_def dropna_all_def drop_header_rows_def all_na_def)
  have "\<exists>d1. clean_dataframe (Some ?d) [''A'', ''B''] = Inr d1
           \<and> clean_dataframe (Some d1) [''A'', ''B''] = Inr d1"
    using clean_dataframe_idempotent_same_schema [of "Some ?d" "[''A'', ''B'']"] by simp
  then show ?thesis using c by auto
qed

section \<open>Page selection and the page loop\<close>

lemma py_range_upto: "py_range a b = [a..b - 1]"
proof (induction a b rule: py_range.induct)
  case (1 a b)
  show ?case
  proof (cases "a < b")
    case True
    then show ?thesis using 1 by (simp add: py_range.simps [of a b] upto.simps [of a "b - 1"])
  next
    case False
    then show ?thesis by (simp add: py_range.simps [of a b])
  qed
qed

lemma pdfplumber_attempts_append:
  "pdfplumber_attempts (xs @ ys) = pdfplumber_attempts xs @ pdfplumber_attempts ys"
  by (induction xs rule: pdfplumber_attempts.induct) simp_all

lemma camelot_attempts_append:
  "camelot_attempts (xs @ ys) = camelot_attempts xs @ camelot_attempts ys"
  by (induction xs rule: camelot_attempts.induct) simp_all

lemma extract_messages:
  "snd (extract_page_data_with_pdfplumber pg cps hs) = [] \<or>
   (\<exists>e. snd (extract_page_data_with_pdfplumber pg cps hs) = [Error_pdfplumber e])"
  by (simp add: extract_page_data_with_pdfplumber_def split: sum.splits)

lemma camelot_tables_pdfplumber_attempts:
  "pdfplumber_attempts (snd (camelot_tables hs pn ts st)) = pdfplumber_attempts (snd st)"
  by (induction hs pn ts st rule: camelot_tables.induct)
     (simp_all add: pdfplumber_attempts_append split: sum.splits)

lemma camelot_fallback_pdfplumber_attempts:
  "pdfplumber_attempts (snd (camelot_fallback env hs pn st)) = pdfplumber_attempts (snd st)"
  by (cases st)
     (simp add: camelot_fallback_def Let_def camelot_tables_pdfplumber_attempts
        pdfplumber_attempts_append split: sum.splits)

lemma process_page_pdfplumber_attempts:
  assumes "index_page pgs pn = Some pg"
  shows "pdfplumber_attempts (snd (process_page env pgs cps hs pn st)) =
         pdfplumber_attempts (snd st) @ [pn + 1]"
proof -
  obtain df errs where ex: "extract_page_data_with_pdfplumber pg cps hs = (df, errs)"
    by (cases "extract_page_data_with_pdfplumber pg cps hs")
  have "pdfplumber_attempts errs = []"
    using extract_messages [of pg cps hs] ex by auto
  then show ?thesis
    using assms ex
    by (cases st)
       (simp add: process_page_def Let_def camelot_fallback_pdfplumber_attempts
          pdfplumber_attempts_append split: option.splits)
qed

lemma page_loop_pdfplumber_attempts:
  assumes "\<forall>pn \<in> set ps. 0 \<le> pn \<and> pn < int (length pgs)"
  shows "pdfplumber_attempts (snd (page_loop env pgs cps hs ps st)) =
         pdfplumber_attempts (snd st) @ map (\<lambda>p. p + 1) ps"
  using assms
proof (induction ps arbitrary: st)
  case Nil
  then show ?case by simp
next
  case (Cons pn ps)
  then have "index_page pgs pn = Some (pgs ! nat pn)"
    by (simp add: index_page_def Let_def)
  then show ?case
    using Cons by (simp add: process_page_pdfplumber_attempts)
qed

lemma pages_to_process_in_range:
  "\<forall>pn \<in> set (pages_to_process pages s e T). 0 \<le> pn \<and> pn < int T"
  by (auto simp: pages_to_process_def py_range_upto split: pages_arg.splits option.splits)


lemma process_pdf_pdfplumber_attempts:
  assumes "pdfplumber_open env = Inr pgs"
  shows "pdfplumber_attempts (snd (process_pdf env pages s e)) =
         map (\<lambda>p. p + 1) (pages_to_process pages s e (length pgs))"
proof -
  let ?ps = "pages_to_process pages s e (length pgs)"
  let ?init = "([], [Info_total_pages (length pgs), Info_processing_pages (map (\<lambda>p. p + 1) ?ps)])"
  let ?st = "page_loop env pgs column_positions expected_headers ?ps ?init"
  have loop: "pdfplumber_attempts (snd ?st) = map (\<lambda>p. p + 1) ?ps"
    using page_loop_pdfplumber_attempts [where ps = ?ps and pgs = pgs and st = ?init]
      pages_to_process_in_range [of pages s e "length pgs"]
    by simp
  obtain all_data shown where st: "?st = (all_data, shown)"
    by (cases ?st)
  have "snd (process_pdf env pages s e) = shown \<or>
        (\<exists>m. pdfplumber_attempts [m] = [] \<and> snd (process_pdf env pages s e) = shown @ [m])"
    using assms st
    by (auto simp: process_pdf_def Let_def split: sum.splits option.splits)
  then show ?thesis
    using loop st by (auto simp: pdfplumber_attempts_append)
qed

lemma count_list_filter:
  "count_list (filter P xs) x = (if P x then count_list xs x else 0)"
  by (induction xs) auto

text \<open>
  What the page loop accumulates: the tables of the pages at the resolved indices, in
  order.
\<close>

lemma clean_dataframe_relabelled:
  "clean_dataframe (Some (t\<lparr>df_columns := hs\<rparr>)) hs =
     Inr (if hs \<noteq> [] \<and> df_rows t \<noteq> []
          then \<lparr>df_columns = hs, df_rows = dropna_all (drop_header_rows (hd hs) (df_rows t))\<rparr>
          else empty_frame hs)"
  by (cases t; cases hs) (simp_all add: clean_dataframe_def df_empty_def)

lemma dropna_drop_Nil [simp]: "dropna_all (drop_header_rows h []) = []"
  by (simp add: dropna_all_def drop_header_rows_def)

lemma camelot_tables_fst:
  "fst (camelot_tables hs pn ts st) = fst st @ fallback_tables hs ts"
proof (induction hs pn ts st rule: camelot_tables.induct)
  case (1 hs pn st)
  then show ?case by (simp add: fallback_tables_def)
next
  case (2 hs pn t ts all_data shown)
  show ?case
  proof (cases "length (df_columns t) = length hs")
    case False
    then show ?thesis using 2 by (simp add: fallback_tables_def)
  next
    case True
    let ?r = "dropna_all (drop_header_rows (hd hs) (df_rows t))"
    show ?thesis
    proof (cases "hs \<noteq> [] \<and> ?r \<noteq> []")
      case yes: True
      then have "df_rows t \<noteq> []" by auto
      then have c: "clean_dataframe (Some (t\<lparr>df_columns := hs\<rparr>)) hs =
                 Inr \<lparr>df_columns = hs, df_rows = ?r\<rparr>"
        using yes by (simp add: clean_dataframe_relabelled)
      have ne: "\<not> df_empty \<lparr>df_columns = hs, df_rows = ?r\<rparr>"
        using yes by (simp add: df_empty_def)
      show ?thesis
        using True yes c ne 2(1) [OF True c ne]
        by (simp add: fallback_tables_def)
    next
      case no: False
      obtain d where c: "clean_dataframe (Some (t\<lparr>df_columns := hs\<rparr>)) hs = Inr d"
        and e: "df_empty d"
        using no by (auto simp: clean_dataframe_relabelled df_empty_def empty_frame_def)
      show ?thesis
        using True no c e 2(2) [OF True c] by (simp add: fallback_tables_def)
    qed
  qed
qed

lemma camelot_fallback_fst:
  "fst (camelot_fallback env hs pn (all_data, shown)) =
     all_data @ (case camelot_read_pdf env (pn + 1) of
                   Inl e \<Rightarrow> []
                 | Inr candidates \<Rightarrow> fallback_tables hs candidates)"
  by (simp add: camelot_fallback_def Let_def camelot_tables_fst split: sum.splits)

lemma process_page_fst:
  assumes "index_page pgs pn = Some pg"
  shows "fst (process_page env pgs cps hs pn (all_data, shown)) =
         all_data @ page_tables env cps hs pg (pn + 1)"
proof -
  obtain df errs where ex: "extract_page_data_with_pdfplumber pg cps hs = (df, errs)"
    by (cases "extract_page_data_with_pdfplumber pg cps hs")
  show ?thesis
    using assms ex
    by (simp add: process_page_def page_tables_def Let_def camelot_fallback_fst
        split: option.splits)
qed

lemma page_loop_fst:
  assumes "\<forall>pn \<in> set ps. 0 \<le> pn \<and> pn < int (length pgs)"
  shows "fst (page_loop env pgs cps hs ps st) =
         fst st @ concat (map (\<lambda>i. page_tables env cps hs (pgs ! nat i) (i + 1)) ps)"
  using assms
proof (induction ps arbitrary: st)
  case Nil
  then show ?case by simp
next
  case (Cons pn ps)
  then have i: "index_page pgs pn = Some (pgs ! nat pn)"
    by (simp add: index_page_def Let_def)
  obtain a s where st: "st = (a, s)" by (cases st)
  show ?case
    using Cons process_page_fst [OF i, of env cps hs a s] by (simp add: st)
qed

lemma process_pdf_result:
  assumes "pdfplumber_open env = Inr pgs"
  shows "fst (process_pdf env pages s e) =
     (let tables = concat (map (\<lambda>i. page_tables env column_positions expected_headers
                                     (pgs ! nat i) (i + 1))
                            (pages_to_process pages s e (length pgs)))
      in if tables = [] then None
         else (case clean_dataframe (Some (pd_concat tables)) expected_headers of
                 Inl x \<Rightarrow> None
               | Inr final_df \<Rightarrow>
                   (case to_excel env final_df of Some x \<Rightarrow> None | None \<Rightarrow> Some final_df)))"
proof -
  let ?ps = "pages_to_process pages s e (length pgs)"
  let ?init = "([], [Info_total_pages (length pgs), Info_processing_pages (map (\<lambda>p. p + 1) ?ps)])"
  let ?st = "page_loop env pgs column_positions expected_headers ?ps ?init"
  have "fst ?st = concat (map (\<lambda>i. page_tables env column_positions expected_headers
                                     (pgs ! nat i) (i + 1)) ?ps)"
    using page_loop_fst [where ps = ?ps and pgs = pgs and st = ?init]
      pages_to_process_in_range [of pages s e "length pgs"]
    by simp
  moreover obtain all_data shown where st: "?st = (all_data, shown)"
    by (cases ?st)
  ultimately show ?thesis
    using assms by (auto simp: process_pdf_def Let_def split: sum.splits option.splits)
qed

text \<open>
  Claim C3. With \<^verbatim>\<open>pages='all'\<close> and both \<^verbatim>\<open>start_page\<close> and \<^verbatim>\<open>end_page\<close>
  given, on a document of T pages the resolved zero-based indices are those from
  \<open>max (start_page - 1) 0\<close> to \<open>min end_page T - 1\<close>, ascending, and the pages on which
  \<^verbatim>\<open>process_pdf\<close> attempts an extraction are exactly these (the messages carry the
  1-based numbers). When the start is not below the end after clipping, nothing is
  resolved and the run ends with the no-data warning, without any error message.
  (start 2, end 5) on 3 pages resolves to [1, 2]. What \<^verbatim>\<open>process_pdf\<close> returns is
  made of the tables of exactly the pages at these indices, in this order: None when
  they give no table, otherwise the cleaned concatenation, unless writing it fails.
\<close>

theorem process_pdf_page_range:
  assumes "pdfplumber_open env = Inr pgs"
  shows "pages_to_process All (Some s) (Some e) (length pgs) =
           [max (s - 1) 0 .. min e (int (length pgs)) - 1]
       \<and> sorted_wrt (<) (pages_to_process All (Some s) (Some e) (length pgs))
       \<and> pdfplumber_attempts (snd (process_pdf env All (Some s) (Some e))) =
           map (\<lambda>p. p + 1) [max (s - 1) 0 .. min e (int (length pgs)) - 1]
       \<and> (min e (int (length pgs)) \<le> max (s - 1) 0 \<longrightarrow>
            pages_to_process All (Some s) (Some e) (length pgs) = []
          \<and> process_pdf env All (Some s) (Some e) =
              (None, [Info_total_pages (length pgs), Info_processing_pages [], Warning_no_data]))
       \<and> pages_to_process All (Some 2) (Some 5) 3 = [1, 2]
       \<and> fst (process_pdf env All (Some s) (Some e)) =
           (let tables = concat (map (\<lambda>i. page_tables env column_positions expected_headers
                                           (pgs ! nat i) (i + 1))
                                  [max (s - 1) 0 .. min e (int (length pgs)) - 1])
            in if tables = [] then None
               else (case clean_dataframe (Some (pd_concat tables)) expected_headers of
                       Inl x \<Rightarrow> None
                     | Inr final_df \<Rightarrow>
                         (case to_excel env final_df of
                            Some x \<Rightarrow> None
                          | None \<Rightarrow> Some final_df)))"
proof -
  have r: "pages_to_process All (Some s) (Some e) (length pgs) =
           [max (s - 1) 0 .. min e (int (length pgs)) - 1]"
    by (simp add: pages_to_process_def py_range_upto)
  have a: "pdfplumber_attempts (snd (process_pdf env All (Some s) (Some e))) =
           map (\<lambda>p. p + 1) [max (s - 1) 0 .. min e (int (length pgs)) - 1]"
    using process_pdf_pdfplumber_attempts [OF assms, of All "Some s" "Some e"] r by simp
  have e: "process_pdf env All (Some s) (Some e) =
             (None, [Info_total_pages (length pgs), Info_processing_pages [], Warning_no_data])"
    if "min e (int (length pgs)) \<le> max (s - 1) 0"
  proof -
    have "pages_to_process All (Some s) (Some e) (length pgs) = []"
      using that r by simp
    then show ?thesis
      using assms by (simp add: process_pdf_def)
  qed
  have sc: "pages_to_process All (Some 2) (Some 5) 3 = [1, 2]"
    by code_simp
  have v: "fst (process_pdf env All (Some s) (Some e)) =
           (let tables = concat (map (\<lambda>i. page_tables env column_positions expected_headers
                                           (pgs ! nat i) (i + 1))
                                  [max (s - 1) 0 .. min e (int (length pgs)) - 1])
            in if tables = [] then None
               else (case clean_dataframe (Some (pd_concat tables)) expected_headers of
                       Inl x \<Rightarrow> None
                     | Inr final_df \<Rightarrow>
                         (case to_excel env final_df of
                            Some x \<Rightarrow> None
                          | None \<Rightarrow> Some final_df)))"
    using process_pdf_result [OF assms, of All "Some s" "Some e"] unfolding r .
  show ?thesis
    using r a e sc v by simp
qed

theorem process_pdf_page_range_witness:
  "pdfplumber_open (blank_env 3) = Inr (replicate 3 (Inr []))
   \<and> min 2 (int (length (replicate 3 (Inr [] :: page)))) \<le> max (5 - 1) 0
   \<and> process_pdf (blank_env 3) All (Some 5) (Some 2) =
       (None, [Info_total_pages 3, Info_processing_pages [], Warning_no_data])
   \<and> pdfplumber_attempts (snd (process_pdf (blank_env 3) All (Some 2) (Some 5))) = [2, 3]
   \<and> fst (process_pdf
            (words_env [[\<lparr>word_text = ''P1'', word_x0 = 40, word_top = 100\<rparr>],
                        [\<lparr>word_text = ''P2'', word_x0 = 40, word_top = 100\<rparr>]])
            All (Some 2) (Some 2)) =
       Some \<lparr>df_columns = expected_headers,
             df_rows = [[Str ''P2'', Str '''', Str '''', Str '''', Str '''', Str '''', Str '''']]\<rparr>"
proof -
  let ?p1 = "\<lparr>word_text = ''P1'', word_x0 = 40, word_top = 100\<rparr>"
  let ?p2 = "\<lparr>word_text = ''P2'', word_x0 = 40, word_top = 100\<rparr>"
  let ?env = "words_env [[?p1], [?p2]]"
  let ?out = "\<lparr>df_columns = expected_headers,
               df_rows = [[Str ''P2'', Str '''', Str '''', Str '''', Str '''', Str '''', Str '''']]\<rparr>"
  have h: "pdfplumber_open (blank_env 3) = Inr (replicate 3 (Inr []))"
    by (simp add: blank_env_def)
  have h2: "pdfplumber_open ?env = Inr [Inr [?p1], Inr [?p2]]"
    by (simp add: words_env_def)
  have idx: "[max (2 - 1) 0 .. min 2 (int (length [Inr [?p1], Inr [?p2] :: page])) - 1] = [1]"
    by (simp add: upto.simps)
  have pt: "page_tables ?env column_positions expected_headers (Inr [?p2]) 2 = [?out]"
    by code_simp
  have cl: "clean_dataframe (Some (pd_concat [?out])) expected_headers = Inr ?out"
    by code_simp
  have ex: "to_excel ?env ?out = None"
    by (simp add: words_env_def)
  have v: "fst (process_pdf ?env All (Some 2) (Some 2)) = Some ?out"
    using process_pdf_page_range [OF h2, of 2 2] unfolding idx
    by (simp add: pt cl ex)
  show ?thesis
    using h process_pdf_page_range [OF h, of 5 2] process_pdf_page_range [OF h, of 2 5] v
    by (simp add: upto.simps)
qed

text \<open>
  Claim C4. For an explicit page list on a document of T pages, exactly the values
  \<open>p\<close> with \<open>1 \<le> p \<le> T\<close> are kept, as \<open>p - 1\<close>, in the caller's order and with
  the caller's multiplicity (nothing is sorted or deduplicated); every resolved index is
  in \<open>[0, T - 1]\<close>; \<^verbatim>\<open>process_pdf\<close> attempts exactly the kept pages in that order.
  The list [5, 1, 5] on 4 pages resolves to [0].
\<close>

theorem explicit_page_list:
  "pages_to_process (Pages ps) s e T =
     map (\<lambda>p. p - 1) (filter (\<lambda>p. 1 \<le> p \<and> p \<le> int T) ps)
   \<and> map (\<lambda>i. i + 1) (pages_to_process (Pages ps) s e T) =
       filter (\<lambda>p. 1 \<le> p \<and> p \<le> int T) ps
   \<and> (\<forall>i \<in> set (pages_to_process (Pages ps) s e T). 0 \<le> i \<and> i \<le> int T - 1)
   \<and> (\<forall>i. count_list (pages_to_process (Pages ps) s e T) i =
            (if 0 \<le> i \<and> i \<le> int T - 1 then count_list ps (i + 1) else 0))
   \<and> (pdfplumber_open env = Inr pgs \<longrightarrow>
        pdfplumber_attempts (snd (process_pdf env (Pages ps) s e)) =
          filter (\<lambda>p. 1 \<le> p \<and> p \<le> int (length pgs)) ps)
   \<and> pages_to_process (Pages [5, 1, 5]) s e 4 = [0]"
proof -
  have same: "(\<lambda>p. 0 < p \<and> p \<le> int n) = (\<lambda>p::int. 1 \<le> p \<and> p \<le> int n)" for n
    by auto
  have r: "pages_to_process (Pages ps) s e n =
           map (\<lambda>p. p - 1) (filter (\<lambda>p. 1 \<le> p \<and> p \<le> int n) ps)" for n
    by (simp add: pages_to_process_def same)
  have m: "map (\<lambda>i. i + 1) (pages_to_process (Pages ps) s e n) =
           filter (\<lambda>p. 1 \<le> p \<and> p \<le> int n) ps" for n
    by (simp add: r o_def)
  have b: "\<forall>i \<in> set (pages_to_process (Pages ps) s e T). 0 \<le> i \<and> i \<le> int T - 1"
    by (auto simp: r)
  have c: "count_list (pages_to_process (Pages ps) s e T) i =
           (if 0 \<le> i \<and> i \<le> int T - 1 then count_list ps (i + 1) else 0)" for i
  proof -
    have "count_list (map (\<lambda>p. p - 1) xs) i = count_list xs (i + 1)" for xs :: "int list"
      by (induction xs) auto
    then show ?thesis
      by (simp add: r count_list_filter)
  qed
  have p: "pdfplumber_attempts (snd (process_pdf env (Pages ps) s e)) =
           filter (\<lambda>p. 1 \<le> p \<and> p \<le> int (length pgs)) ps"
    if "pdfplumber_open env = Inr pgs"
    using process_pdf_pdfplumber_attempts [OF that, of "Pages ps" s e] m by simp
  have sc: "pages_to_process (Pages [5, 1, 5]) s e 4 = [0]"
    by (simp add: pages_to_process_def)
  show ?thesis
    using r [of T] m [of T] b c p sc by simp
qed

theorem explicit_page_list_witness:
  "pdfplumber_open (blank_env 4) = Inr (replicate 4 (Inr []))
   \<and> (0::int) \<in> set (pages_to_process (Pages [5, 1, 5]) None None 4)
   \<and> pdfplumber_attempts (snd (process_pdf (blank_env 4) (Pages [5, 1, 5]) None None)) = [1]
   \<and> pages_to_process (Pages [5, 1, 5]) None None 4 = [0]"
proof -
  have h: "pdfplumber_open (blank_env 4) = Inr (replicate 4 (Inr []))"
    by (simp add: blank_env_def)
  show ?thesis
    using h explicit_page_list [of "[5, 1, 5]" None None 4 "blank_env 4" "replicate 4 (Inr [])"]
    by simp
qed

section \<open>The page step: acceptance and fallback\<close>

lemma extract_camelot_attempts:
  "camelot_attempts (snd (extract_page_data_with_pdfplumber pg cps hs)) = []"
  using extract_messages [of pg cps hs] by auto

lemma camelot_tables_camelot_attempts:
  "camelot_attempts (snd (camelot_tables hs pn ts st)) = camelot_attempts (snd st)"
  by (induction hs pn ts st rule: camelot_tables.induct)
     (simp_all add: camelot_attempts_append split: sum.splits)

lemma camelot_fallback_camelot_attempts:
  "camelot_attempts (snd (camelot_fallback env hs pn (all_data, shown))) =
   camelot_attempts shown @ [pn + 1]"
  by (simp add: camelot_fallback_def Let_def camelot_tables_camelot_attempts
      camelot_attempts_append split: sum.splits)

lemma camelot_fallback_nothing:
  "camelot_read_pdf env (pn + 1) = Inr [] \<or> (\<exists>e. camelot_read_pdf env (pn + 1) = Inl e) \<Longrightarrow>
   fst (camelot_fallback env hs pn (all_data, shown)) = all_data"
  by (auto simp: camelot_fallback_def Let_def)

lemma place_word_nonempty: "place_word n cps rows w = Inr rows' \<Longrightarrow> rows' \<noteq> []"
proof -
  have e: "ensure_row n k rows \<noteq> []" for k
    by (auto simp: ensure_row_def)
  have a: "append_text k idx t rs \<noteq> []" if "rs \<noteq> []" for k idx t and rs :: grid
    using that by (cases rs) (auto split: if_splits)
  show "place_word n cps rows w = Inr rows' \<Longrightarrow> rows' \<noteq> []"
    using e a by (auto simp: place_word_def Let_def split: option.splits if_splits)
qed

lemma build_rows_nonempty:
  "build_rows n cps ws rows = Inr rows' \<Longrightarrow> rows \<noteq> [] \<or> ws \<noteq> [] \<Longrightarrow> rows' \<noteq> []"
proof (induction ws arbitrary: rows)
  case Nil
  then show ?case by simp
next
  case (Cons w ws)
  then show ?case
    by (auto split: sum.splits dest: place_word_nonempty)
qed

text \<open>
  Claim C9. A page with at least one token, all of whose tokens have \<open>x0\<close> below the
  first boundary (boundaries ascending, the first header not the empty string): the row
  is created before the column scan, no text reaches a cell, and
  \<^verbatim>\<open>clean_dataframe\<close> keeps rows of empty strings. The function returns a frame
  with one row of empty strings per distinct row key, reporting nothing.
  \<^verbatim>\<open>process_pdf\<close> accepts it for the page and does not attempt Camelot.
\<close>

theorem marginal_tokens_give_blank_rows:
  assumes "ws \<noteq> []" and "\<forall>w \<in> set ws. word_x0 w < hd cps" and "cps \<noteq> []" and "sorted cps"
    and "hs \<noteq> []" and "hd hs \<noteq> ''''"
  shows "extract_page_data_with_pdfplumber (Inr ws) cps hs =
           (Some \<lparr>df_columns = hs,
                  df_rows = replicate (card ((\<lambda>w. py_round_tens (word_top w)) ` set ws))
                              (replicate (length hs) (Str ''''))\<rparr>, [])
       \<and> 0 < card ((\<lambda>w. py_round_tens (word_top w)) ` set ws)
       \<and> \<not> df_empty
              \<lparr>df_columns = hs,
               df_rows = replicate (card ((\<lambda>w. py_round_tens (word_top w)) ` set ws))
                           (replicate (length hs) (Str ''''))\<rparr>
       \<and> (index_page pgs pn = Some (Inr ws) \<longrightarrow>
            process_page env pgs cps hs pn (all_data, shown) =
              (all_data @
                 [\<lparr>df_columns = hs,
                   df_rows = replicate (card ((\<lambda>w. py_round_tens (word_top w)) ` set ws))
                               (replicate (length hs) (Str ''''))\<rparr>],
               shown @ [Info_attempt_pdfplumber (pn + 1), Success_pdfplumber (pn + 1)])
          \<and> camelot_attempts (snd (process_page env pgs cps hs pn (all_data, shown))) =
              camelot_attempts shown)"
proof -
  let ?m = "card ((\<lambda>w. py_round_tens (word_top w)) ` set ws)"
  let ?df = "\<lparr>df_columns = hs, df_rows = replicate ?m (replicate (length hs) (Str ''''))\<rparr>"
  have none: "\<forall>w \<in> set ws. scan_columns 0 (column_intervals cps) (word_x0 w) = None"
    using assms(2) scan_columns_below_first [OF assms(4,3)] by blast
  obtain rows where r: "build_rows (length hs) cps ws [] = Inr rows"
    and d: "distinct (map fst rows)"
    and k: "set (map fst rows) = (\<lambda>w. py_round_tens (word_top w)) ` set ws"
    and b: "\<forall>p \<in> set rows. snd p = replicate (length hs) []"
    using build_rows_blank [OF none, of "[]" "length hs"] by auto
  have len: "length rows = ?m"
    using distinct_card [OF d] k by simp
  have m: "0 < ?m"
    using assms(1) by (simp add: card_gt_0_iff)
  have dr: "data_rows rows = replicate ?m (replicate (length hs) '''')"
    using data_rows_blank [OF b] len by simp
  have fr: "frame_of_rows (data_rows rows) hs = ?df"
    by (simp add: dr frame_of_rows_def)
  have ne: "data_rows rows \<noteq> []"
    using dr m by auto
  have ex: "extract_page_data_with_pdfplumber (Inr ws) cps hs = (Some ?df, [])"
    using r ne fr clean_dataframe_blank_rows [OF assms(5,6) m]
    by (simp add: extract_page_data_with_pdfplumber_def)
  have nonempty: "\<not> df_empty ?df"
    using m assms(5) by (auto simp: df_empty_def)
  have pp: "process_page env pgs cps hs pn (all_data, shown) =
              (all_data @ [?df],
               shown @ [Info_attempt_pdfplumber (pn + 1), Success_pdfplumber (pn + 1)])"
    if "index_page pgs pn = Some (Inr ws)"
    using that ex nonempty by (simp add: process_page_def Let_def)
  have ca: "camelot_attempts (snd (process_page env pgs cps hs pn (all_data, shown))) =
              camelot_attempts shown"
    if "index_page pgs pn = Some (Inr ws)"
    using pp [OF that] by (simp add: camelot_attempts_append)
  show ?thesis
    using ex m nonempty pp ca by blast
qed

theorem marginal_tokens_give_blank_rows_witness:
  "extract_page_data_with_pdfplumber
     (Inr [\<lparr>word_text = ''1'', word_x0 = 10, word_top = 100\<rparr>,
           \<lparr>word_text = ''2'', word_x0 = 20, word_top = 130\<rparr>])
     column_positions expected_headers =
     (Some \<lparr>df_columns = expected_headers,
            df_rows = [[Str '''', Str '''', Str '''', Str '''', Str '''', Str '''', Str ''''],
                       [Str '''', Str '''', Str '''', Str '''', Str '''', Str '''', Str '''']]\<rparr>,
      [])
   \<and> camelot_attempts
        (snd (process_page (one_page_env
                 [\<lparr>word_text = ''1'', word_x0 = 10, word_top = 100\<rparr>,
                  \<lparr>word_text = ''2'', word_x0 = 20, word_top = 130\<rparr>] None)
               [Inr [\<lparr>word_text = ''1'', word_x0 = 10, word_top = 100\<rparr>,
                     \<lparr>word_text = ''2'', word_x0 = 20, word_top = 130\<rparr>]]
               column_positions expected_headers 0 ([], []))) = []"
proof -
  let ?ws = "[\<lparr>word_text = ''1'', word_x0 = 10, word_top = 100\<rparr>,
              \<lparr>word_text = ''2'', word_x0 = 20, word_top = 130\<rparr>]"
  have h1: "?ws \<noteq> []" by simp
  have h2: "\<forall>w \<in> set ?ws. word_x0 w < hd column_positions"
    by (simp add: column_positions_def)
  have h3: "column_positions \<noteq> []" by (simp add: column_positions_def)
  have h4: "sorted column_positions" by (simp add: column_positions_def)
  have h5: "expected_headers \<noteq> []" by (simp add: expected_headers_def)
  have h6: "hd expected_headers \<noteq> ''''" by (simp add: expected_headers_def)
  have r: "py_round_tens 100 = 100" "py_round_tens 130 = 130"
    by code_simp+
  have c: "card {py_round_tens 100, py_round_tens 130} = 2"
    by (simp add: r)
  have i: "index_page [Inr ?ws] 0 = Some (Inr ?ws)"
    by (simp add: index_page_def)
  have l: "replicate (length expected_headers) (Str '''') =
           [Str '''', Str '''', Str '''', Str '''', Str '''', Str '''', Str '''']"
    by (simp add: expected_headers_def)
  note t = marginal_tokens_give_blank_rows [OF h1 h2 h3 h4 h5 h6,
      of "[Inr ?ws]" 0 "one_page_env ?ws None" "[]" "[]"]
  show ?thesis
    using t i by (simp add: c l numeral_2_eq_2)
qed

text \<open>
  Claim C8. A page without tokens, and any page whose grid has no rows (which are the
  pages without tokens), makes \<^verbatim>\<open>extract_page_data_with_pdfplumber\<close> return None,
  reporting nothing; None is not the zero-row table. For a page whose result is None or
  an empty frame the page step attempts Camelot for that page and appends what its
  candidates contribute: the candidates with as many columns as headers, relabelled and
  cleaned, that keep a row. When Camelot returns no table, or raises, the accumulator is
  unchanged and the loop goes on over the remaining pages from that accumulator.
\<close>

theorem empty_page_no_result_then_fallback:
  "extract_page_data_with_pdfplumber (Inr []) cps hs = (None, [])
   \<and> (build_rows (length hs) cps ws [] = Inr rows \<and> data_rows rows = [] \<longrightarrow>
        ws = [] \<and> extract_page_data_with_pdfplumber (Inr ws) cps hs = (None, []))
   \<and> fst (extract_page_data_with_pdfplumber (Inr []) cps hs) \<noteq> Some (empty_frame hs)
   \<and> (index_page pgs pn = Some pg
        \<and> (fst (extract_page_data_with_pdfplumber pg cps hs) = None
           \<or> (\<exists>d. fst (extract_page_data_with_pdfplumber pg cps hs) = Some d \<and> df_empty d)) \<longrightarrow>
        camelot_attempts (snd (process_page env pgs cps hs pn (all_data, shown))) =
          camelot_attempts shown @ [pn + 1]
      \<and> (camelot_read_pdf env (pn + 1) = Inr []
           \<or> (\<exists>e. camelot_read_pdf env (pn + 1) = Inl e) \<longrightarrow>
           fst (process_page env pgs cps hs pn (all_data, shown)) = all_data
         \<and> page_loop env pgs cps hs (pn # rest) (all_data, shown) =
             page_loop env pgs cps hs rest
               (all_data, snd (process_page env pgs cps hs pn (all_data, shown))))
      \<and> (camelot_read_pdf env (pn + 1) = Inr candidates \<longrightarrow>
           fst (process_page env pgs cps hs pn (all_data, shown)) =
             all_data @ fallback_tables hs candidates
         \<and> fst (page_loop env pgs cps hs (pn # rest) (all_data, shown)) =
             fst (page_loop env pgs cps hs rest
                    (all_data @ fallback_tables hs candidates,
                     snd (process_page env pgs cps hs pn (all_data, shown))))))"
proof -
  have old: "extract_page_data_with_pdfplumber (Inr []) cps hs = (None, [])
   \<and> (build_rows (length hs) cps ws [] = Inr rows \<and> data_rows rows = [] \<longrightarrow>
        ws = [] \<and> extract_page_data_with_pdfplumber (Inr ws) cps hs = (None, []))
   \<and> fst (extract_page_data_with_pdfplumber (Inr []) cps hs) \<noteq> Some (empty_frame hs)"
  proof -
    have e: "extract_page_data_with_pdfplumber (Inr []) cps hs = (None, [])"
      by (simp add: extract_page_data_with_pdfplumber_def data_rows_def)
    have z: "ws = [] \<and> extract_page_data_with_pdfplumber (Inr ws) cps hs = (None, [])"
      if "build_rows (length hs) cps ws [] = Inr rows" "data_rows rows = []"
    proof -
      have "rows = []" using that(2) by (simp add: data_rows_Nil_iff)
      then have "ws = []" using build_rows_nonempty [OF that(1)] by blast
      then show ?thesis using e by simp
    qed
    show ?thesis using e z by simp
  qed
  have p: "camelot_attempts (snd (process_page env pgs cps hs pn (all_data, shown))) =
             camelot_attempts shown @ [pn + 1]
         \<and> (camelot_read_pdf env (pn + 1) = Inr []
              \<or> (\<exists>e. camelot_read_pdf env (pn + 1) = Inl e) \<longrightarrow>
              fst (process_page env pgs cps hs pn (all_data, shown)) = all_data
            \<and> page_loop env pgs cps hs (pn # rest) (all_data, shown) =
                page_loop env pgs cps hs rest
                  (all_data, snd (process_page env pgs cps hs pn (all_data, shown))))
         \<and> (camelot_read_pdf env (pn + 1) = Inr candidates \<longrightarrow>
              fst (process_page env pgs cps hs pn (all_data, shown)) =
                all_data @ fallback_tables hs candidates
            \<and> fst (page_loop env pgs cps hs (pn # rest) (all_data, shown)) =
                fst (page_loop env pgs cps hs rest
                       (all_data @ fallback_tables hs candidates,
                        snd (process_page env pgs cps hs pn (all_data, shown)))))"
    if i: "index_page pgs pn = Some pg"
      and n: "fst (extract_page_data_with_pdfplumber pg cps hs) = None
              \<or> (\<exists>d. fst (extract_page_data_with_pdfplumber pg cps hs) = Some d \<and> df_empty d)"
  proof -
    obtain df errs where ex: "extract_page_data_with_pdfplumber pg cps hs = (df, errs)"
      by (cases "extract_page_data_with_pdfplumber pg cps hs")
    have ce: "camelot_attempts errs = []"
      using extract_camelot_attempts [of pg cps hs] ex by simp
    have pp: "process_page env pgs cps hs pn (all_data, shown) =
              camelot_fallback env hs pn
                (all_data, shown @ [Info_attempt_pdfplumber (pn + 1)] @ errs)"
      using i n ex by (auto simp: process_page_def Let_def)
    have a: "camelot_attempts (snd (process_page env pgs cps hs pn (all_data, shown))) =
             camelot_attempts shown @ [pn + 1]"
      by (simp add: pp camelot_fallback_camelot_attempts camelot_attempts_append ce)
    have f: "fst (process_page env pgs cps hs pn (all_data, shown)) = all_data"
      if "camelot_read_pdf env (pn + 1) = Inr [] \<or> (\<exists>e. camelot_read_pdf env (pn + 1) = Inl e)"
      using camelot_fallback_nothing [OF that] by (simp add: pp)
    have l: "page_loop env pgs cps hs (pn # rest) (all_data, shown) =
               page_loop env pgs cps hs rest
                 (all_data, snd (process_page env pgs cps hs pn (all_data, shown)))"
      if "camelot_read_pdf env (pn + 1) = Inr [] \<or> (\<exists>e. camelot_read_pdf env (pn + 1) = Inl e)"
      using f [OF that]
      by (cases "process_page env pgs cps hs pn (all_data, shown)") simp
    have g: "fst (process_page env pgs cps hs pn (all_data, shown)) =
               all_data @ fallback_tables hs candidates"
      if "camelot_read_pdf env (pn + 1) = Inr candidates"
      using that by (simp add: pp camelot_fallback_fst)
    have gl: "fst (page_loop env pgs cps hs (pn # rest) (all_data, shown)) =
                fst (page_loop env pgs cps hs rest
                       (all_data @ fallback_tables hs candidates,
                        snd (process_page env pgs cps hs pn (all_data, shown))))"
      if "camelot_read_pdf env (pn + 1) = Inr candidates"
      using g [OF that]
      by (cases "process_page env pgs cps hs pn (all_data, shown)") simp
    show ?thesis using a f l g gl by blast
  qed
  show ?thesis
    using old p by blast
qed

theorem empty_page_no_result_then_fallback_witness:
  "index_page (replicate 2 (Inr [])) 0 = Some (Inr [])
   \<and> fst (extract_page_data_with_pdfplumber (Inr []) column_positions expected_headers) = None
   \<and> camelot_read_pdf (blank_env 2) (0 + 1) = Inr []
   \<and> camelot_attempts
        (snd (process_page (blank_env 2) (replicate 2 (Inr []))
                column_positions expected_headers 0 ([], []))) = [1]
   \<and> fst (process_page (blank_env 2) (replicate 2 (Inr []))
             column_positions expected_headers 0 ([], [])) = []
   \<and> page_loop (blank_env 2) (replicate 2 (Inr [])) column_positions expected_headers
        [0, 1] ([], []) =
       page_loop (blank_env 2) (replicate 2 (Inr [])) column_positions expected_headers
        [1]
        ([], snd (process_page (blank_env 2) (replicate 2 (Inr []))
                    column_positions expected_headers 0 ([], [])))
   \<and> fst (process_page
            (camelot_env
               [\<lparr>df_columns = [''0'', ''1'', ''2'', ''3'', ''4'', ''5'', ''6''],
                 df_rows = [[Str ''Receipt No.'', Str ''Completion Time'', Str ''Details'',
                             Str ''Transaction Status'', Str ''Paid In'', Str ''Withdrawn'',
                             Str ''Balance''],
                            [Str ''R1'', Str ''t'', Str ''d'', Str ''ok'', Str ''1'', Str '''',
                             Str ''9'']]\<rparr>,
                \<lparr>df_columns = [''0'', ''1''], df_rows = [[Str ''a'', Str ''b'']]\<rparr>])
            [Inr []] column_positions expected_headers 0 ([], [])) =
       [\<lparr>df_columns = expected_headers,
         df_rows = [[Str ''R1'', Str ''t'', Str ''d'', Str ''ok'', Str ''1'', Str '''',
                     Str ''9'']]\<rparr>]"
proof -
  let ?t = "\<lparr>df_columns = [''0'', ''1'', ''2'', ''3'', ''4'', ''5'', ''6''],
             df_rows = [[Str ''Receipt No.'', Str ''Completion Time'', Str ''Details'',
                         Str ''Transaction Status'', Str ''Paid In'', Str ''Withdrawn'',
                         Str ''Balance''],
                        [Str ''R1'', Str ''t'', Str ''d'', Str ''ok'', Str ''1'', Str '''',
                         Str ''9'']]\<rparr>"
  let ?u = "\<lparr>df_columns = [''0'', ''1''], df_rows = [[Str ''a'', Str ''b'']]\<rparr>"
  let ?out = "\<lparr>df_columns = expected_headers,
               df_rows = [[Str ''R1'', Str ''t'', Str ''d'', Str ''ok'', Str ''1'', Str '''',
                           Str ''9'']]\<rparr>"
  have i: "index_page (replicate 2 (Inr [])) 0 = Some (Inr [])"
    by (simp add: index_page_def)
  have c: "camelot_read_pdf (blank_env 2) (0 + 1) = Inr []"
    by (simp add: blank_env_def)
  note t = empty_page_no_result_then_fallback [where cps = column_positions
      and hs = expected_headers and ws = "[]" and rows = "[]"
      and pgs = "replicate 2 (Inr [])" and pn = 0 and pg = "Inr []" and env = "blank_env 2"
      and all_data = "[]" and shown = "[]" and rest = "[1]" and candidates = "[]"]
  have n: "fst (extract_page_data_with_pdfplumber (Inr []) column_positions expected_headers) = None"
    using t by simp
  have i2: "index_page [Inr []] 0 = Some (Inr [])"
    by (simp add: index_page_def)
  have c2: "camelot_read_pdf (camelot_env [?t, ?u]) (0 + 1) = Inr [?t, ?u]"
    by (simp add: camelot_env_def)
  have fb: "fallback_tables expected_headers [?t, ?u] = [?out]"
    by code_simp
  note t2 = empty_page_no_result_then_fallback [where cps = column_positions
      and hs = expected_headers and ws = "[]" and rows = "[]"
      and pgs = "[Inr []]" and pn = 0 and pg = "Inr []" and env = "camelot_env [?t, ?u]"
      and all_data = "[]" and shown = "[]" and rest = "[]" and candidates = "[?t, ?u]"]
  have g: "fst (process_page (camelot_env [?t, ?u]) [Inr []] column_positions
                  expected_headers 0 ([], [])) = [?out]"
    using t2 i2 c2 n fb by simp
  show ?thesis
    using t i c n g by simp
qed

text \<open>With a header list that is not empty, \<^verbatim>\<open>clean_dataframe\<close> does not raise.\<close>

lemma clean_dataframe_headers_ok:
  "hs \<noteq> [] \<Longrightarrow> \<exists>d. clean_dataframe df hs = Inr d"
  by (cases hs) (auto simp: clean_dataframe_def split: option.splits)

text \<open>
  Claim C10. \<^verbatim>\<open>process_pdf\<close> returns None when opening the document raises, when
  the page loop ends with nothing accumulated, and when writing the spreadsheet raises.
  The returned value is the same in all three; only the messages differ (the error
  message against the no-data warning). Once the document is open these are the only
  ways to None: the last cleaning cannot raise.
\<close>

theorem process_pdf_none_on_error_and_on_no_data:
  "(pdfplumber_open env = Inl err \<longrightarrow> process_pdf env pages s e = (None, [Error_fatal err]))
   \<and> (pdfplumber_open env = Inr pgs
        \<and> page_loop env pgs column_positions expected_headers
            (pages_to_process pages s e (length pgs))
            ([], [Info_total_pages (length pgs),
                  Info_processing_pages
                    (map (\<lambda>p. p + 1) (pages_to_process pages s e (length pgs)))]) =
           (all_data, shown) \<longrightarrow>
        (all_data = [] \<longrightarrow> process_pdf env pages s e = (None, shown @ [Warning_no_data]))
      \<and> (all_data \<noteq> []
           \<and> clean_dataframe (Some (pd_concat all_data)) expected_headers = Inr final_df
           \<and> to_excel env final_df = Some err \<longrightarrow>
           process_pdf env pages s e = (None, shown @ [Error_fatal err]))
      \<and> (fst (process_pdf env pages s e) = None \<longleftrightarrow>
           all_data = []
           \<or> (\<exists>d x. clean_dataframe (Some (pd_concat all_data)) expected_headers = Inr d
                    \<and> to_excel env d = Some x)))"
proof -
  have a: "process_pdf env pages s e = (None, [Error_fatal err])"
    if "pdfplumber_open env = Inl err"
    using that by (simp add: process_pdf_def)
  have b: "(all_data = [] \<longrightarrow> process_pdf env pages s e = (None, shown @ [Warning_no_data]))
      \<and> (all_data \<noteq> []
           \<and> clean_dataframe (Some (pd_concat all_data)) expected_headers = Inr final_df
           \<and> to_excel env final_df = Some err \<longrightarrow>
           process_pdf env pages s e = (None, shown @ [Error_fatal err]))
      \<and> (fst (process_pdf env pages s e) = None \<longleftrightarrow>
           all_data = []
           \<or> (\<exists>d x. clean_dataframe (Some (pd_concat all_data)) expected_headers = Inr d
                    \<and> to_excel env d = Some x))"
    if o: "pdfplumber_open env = Inr pgs"
      and l: "page_loop env pgs column_positions expected_headers
            (pages_to_process pages s e (length pgs))
            ([], [Info_total_pages (length pgs),
                  Info_processing_pages
                    (map (\<lambda>p. p + 1) (pages_to_process pages s e (length pgs)))]) =
           (all_data, shown)"
  proof (cases "all_data = []")
    case True
    then show ?thesis using o l by (simp add: process_pdf_def Let_def)
  next
    case False
    have "expected_headers \<noteq> []" by (simp add: expected_headers_def)
    then obtain d where d: "clean_dataframe (Some (pd_concat all_data)) expected_headers = Inr d"
      using clean_dataframe_headers_ok by blast
    have p: "process_pdf env pages s e =
             (case to_excel env d of
                Some x \<Rightarrow> (None, shown @ [Error_fatal x])
              | None \<Rightarrow> (Some d, shown))"
      using o l d False by (simp add: process_pdf_def Let_def)
    show ?thesis
      using False d p by (auto split: option.splits)
  qed
  show ?thesis
    using a b by blast
qed

theorem process_pdf_none_on_error_and_on_no_data_witness:
  "pdfplumber_open locked_env = Inl ExternalError
   \<and> process_pdf locked_env All None None = (None, [Error_fatal ExternalError])
   \<and> pdfplumber_open (blank_env 1) = Inr [Inr []]
   \<and> process_pdf (blank_env 1) All None None =
       (None, [Info_total_pages 1, Info_processing_pages [1], Info_attempt_pdfplumber 1,
               Info_attempt_camelot 1, Warning_no_data])
   \<and> process_pdf (one_page_env [\<lparr>word_text = ''x'', word_x0 = 40, word_top = 100\<rparr>]
                     (Some ExternalError)) All None None =
       (None, [Info_total_pages 1, Info_processing_pages [1], Info_attempt_pdfplumber 1,
               Success_pdfplumber 1, Error_fatal ExternalError])
   \<and> fst (process_pdf locked_env All None None) = fst (process_pdf (blank_env 1) All None None)"
proof -
  let ?x = "\<lparr>word_text = ''x'', word_x0 = 40, word_top = 100\<rparr>"
  let ?df = "\<lparr>df_columns = expected_headers,
              df_rows = [[Str ''x'', Str '''', Str '''', Str '''', Str '''', Str '''', Str '''']]\<rparr>"
  have o1: "pdfplumber_open locked_env = Inl ExternalError"
    by (simp add: locked_env_def)
  have o2: "pdfplumber_open (blank_env 1) = Inr [Inr []]"
    by (simp add: blank_env_def)
  have o3: "pdfplumber_open (one_page_env [?x] (Some ExternalError)) = Inr [Inr [?x]]"
    by (simp add: one_page_env_def)
  have r: "pages_to_process All None None (length [p]) = [0]" for p :: page
    by code_simp
  have l2: "page_loop (blank_env 1) [Inr []] column_positions expected_headers [0]
              ([], [Info_total_pages 1, Info_processing_pages [1]]) =
            ([], [Info_total_pages 1, Info_processing_pages [1], Info_attempt_pdfplumber 1,
                  Info_attempt_camelot 1])"
    by code_simp
  have l3: "page_loop (one_page_env [?x] (Some ExternalError)) [Inr [?x]]
              column_positions expected_headers [0]
              ([], [Info_total_pages 1, Info_processing_pages [1]]) =
            ([?df], [Info_total_pages 1, Info_processing_pages [1], Info_attempt_pdfplumber 1,
                     Success_pdfplumber 1])"
    by code_simp
  have c3: "clean_dataframe (Some (pd_concat [?df])) expected_headers = Inr ?df"
    by code_simp
  have w3: "to_excel (one_page_env [?x] (Some ExternalError)) ?df = Some ExternalError"
    by (simp add: one_page_env_def)
  have t1: "process_pdf locked_env All None None = (None, [Error_fatal ExternalError])"
    using process_pdf_none_on_error_and_on_no_data [of locked_env ExternalError All None None]
      o1 by simp
  have t2: "process_pdf (blank_env 1) All None None =
       (None, [Info_total_pages 1, Info_processing_pages [1], Info_attempt_pdfplumber 1,
               Info_attempt_camelot 1, Warning_no_data])"
    using process_pdf_none_on_error_and_on_no_data [of "blank_env 1" ExternalError All None None
        "[Inr []]" "[]" "[Info_total_pages 1, Info_processing_pages [1],
           Info_attempt_pdfplumber 1, Info_attempt_camelot 1]"]
      o2 l2 r by simp
  have t3: "process_pdf (one_page_env [?x] (Some ExternalError)) All None None =
       (None, [Info_total_pages 1, Info_processing_pages [1], Info_attempt_pdfplumber 1,
               Success_pdfplumber 1, Error_fatal ExternalError])"
    using process_pdf_none_on_error_and_on_no_data
        [of "one_page_env [?x] (Some ExternalError)" ExternalError All None None
        "[Inr [?x]]" "[?df]" "[Info_total_pages 1, Info_processing_pages [1],
           Info_attempt_pdfplumber 1, Success_pdfplumber 1]" ?df]
      o3 l3 r c3 w3 by simp
  show ?thesis
    using o1 o2 t1 t2 t3 by simp
qed

end
